theory Spec2Isabelle
  imports Complex_Main "HOL-Library.Word" "HOL-Library.Log_Nat"
begin

section \<open>JavaScript numbers\<close>

text \<open>
  The editor computes with JavaScript numbers. A number is modelled as a finite
  real, one of the two infinities, or NaN. In the geometry of the editor finite
  arithmetic is exact: the rounding of IEEE doubles and the sign of zero are left
  out, every division by a finite zero treats the divisor as \<open>+0\<close>. Everything
  else follows IEEE 754 as ECMAScript applies it: arithmetic never throws,
  \<open>x / 0\<close> is an infinity or NaN, each comparison with NaN is false,
  \<open>Math.min\<close> and \<open>Math.max\<close> return NaN as soon as one argument is NaN.
  The greyscale filter is the one place where the rounding decides a result, the
  byte that is written: there every literal, product and sum is rounded to binary64.
\<close>

datatype jsnum = Fin real | PInf | NInf | NaN

fun jneg :: "jsnum \<Rightarrow> jsnum" where
  "jneg (Fin a) = Fin (- a)"
| "jneg PInf = NInf"
| "jneg NInf = PInf"
| "jneg NaN = NaN"

fun jadd :: "jsnum \<Rightarrow> jsnum \<Rightarrow> jsnum" where
  "jadd (Fin a) (Fin b) = Fin (a + b)"
| "jadd NaN _ = NaN"
| "jadd _ NaN = NaN"
| "jadd PInf NInf = NaN"
| "jadd NInf PInf = NaN"
| "jadd PInf _ = PInf"
| "jadd _ PInf = PInf"
| "jadd NInf _ = NInf"
| "jadd _ NInf = NInf"

definition jsub :: "jsnum \<Rightarrow> jsnum \<Rightarrow> jsnum" where
  "jsub a b = jadd a (jneg b)"

text \<open>An infinity multiplied or divided by a finite number takes the sign of the product.\<close>

fun signed_inf :: "bool \<Rightarrow> jsnum" where
  "signed_inf True = PInf"
| "signed_inf False = NInf"

fun jmul :: "jsnum \<Rightarrow> jsnum \<Rightarrow> jsnum" where
  "jmul (Fin a) (Fin b) = Fin (a * b)"
| "jmul NaN _ = NaN"
| "jmul _ NaN = NaN"
| "jmul (Fin a) PInf = (if a = 0 then NaN else signed_inf (0 < a))"
| "jmul (Fin a) NInf = (if a = 0 then NaN else signed_inf (a < 0))"
| "jmul PInf (Fin b) = (if b = 0 then NaN else signed_inf (0 < b))"
| "jmul NInf (Fin b) = (if b = 0 then NaN else signed_inf (b < 0))"
| "jmul PInf PInf = PInf"
| "jmul NInf NInf = PInf"
| "jmul PInf NInf = NInf"
| "jmul NInf PInf = NInf"

fun jdiv :: "jsnum \<Rightarrow> jsnum \<Rightarrow> jsnum" where
  "jdiv (Fin a) (Fin b) =
     (if b = 0 then (if a = 0 then NaN else signed_inf (0 < a)) else Fin (a / b))"
| "jdiv NaN _ = NaN"
| "jdiv _ NaN = NaN"
| "jdiv (Fin a) PInf = Fin 0"
| "jdiv (Fin a) NInf = Fin 0"
| "jdiv PInf (Fin b) = signed_inf (0 \<le> b)"
| "jdiv NInf (Fin b) = signed_inf (b < 0)"
| "jdiv PInf PInf = NaN"
| "jdiv PInf NInf = NaN"
| "jdiv NInf PInf = NaN"
| "jdiv NInf NInf = NaN"

fun jlt :: "jsnum \<Rightarrow> jsnum \<Rightarrow> bool" where
  "jlt (Fin a) (Fin b) = (a < b)"
| "jlt NaN _ = False"
| "jlt _ NaN = False"
| "jlt PInf _ = False"
| "jlt _ PInf = True"
| "jlt NInf NInf = False"
| "jlt NInf _ = True"
| "jlt _ NInf = False"

definition jgt :: "jsnum \<Rightarrow> jsnum \<Rightarrow> bool" where
  "jgt a b = jlt b a"

definition jge :: "jsnum \<Rightarrow> jsnum \<Rightarrow> bool" where
  "jge a b = (a \<noteq> NaN \<and> b \<noteq> NaN \<and> \<not> jlt a b)"

definition Math_min :: "jsnum \<Rightarrow> jsnum \<Rightarrow> jsnum" where
  "Math_min a b = (if a = NaN \<or> b = NaN then NaN else if jlt b a then b else a)"

definition Math_max :: "jsnum \<Rightarrow> jsnum \<Rightarrow> jsnum" where
  "Math_max a b = (if a = NaN \<or> b = NaN then NaN else if jlt a b then b else a)"

text \<open>JavaScript's \<open>a || b\<close> on numbers: \<open>0\<close> and NaN are falsy.\<close>

definition js_or :: "jsnum \<Rightarrow> jsnum \<Rightarrow> jsnum" where
  "js_or a b = (if a = Fin 0 \<or> a = NaN then b else a)"

section \<open>The framing estimator (ImageEditor.tsx, detectFaceAndCrop)\<close>

record point =
  pos_x :: jsnum
  pos_y :: jsnum

record face =
  faceX :: jsnum
  faceY :: jsnum
  faceWidth :: jsnum
  faceHeight :: jsnum

text \<open>Lines 96 to 121: the candidate rectangle, by aspect-ratio band.\<close>

definition estimateFace :: "jsnum \<Rightarrow> jsnum \<Rightarrow> face" where
  "estimateFace imgWidth imgHeight =
     (let aspectRatio = jdiv imgWidth imgHeight in
      if jgt aspectRatio (Fin 0.6) \<and> jlt aspectRatio (Fin 1.5) then
        (let fw = Math_min (jmul imgWidth (Fin 0.4)) (jmul imgHeight (Fin 0.3));
             fh = jmul fw (Fin 1.2)
         in \<lparr>faceX = jdiv (jsub imgWidth fw) (Fin 2),
             faceY = jmul imgHeight (Fin 0.15),
             faceWidth = fw, faceHeight = fh\<rparr>)
      else if jge aspectRatio (Fin 1.5) then
        (let fw = Math_min (jmul imgWidth (Fin 0.25)) (jmul imgHeight (Fin 0.6));
             fh = jmul fw (Fin 1.2)
         in \<lparr>faceX = jmul imgWidth (Fin 0.3),
             faceY = jdiv (jsub imgHeight fh) (Fin 2),
             faceWidth = fw, faceHeight = fh\<rparr>)
      else
        (let fw = Math_min (jmul imgWidth (Fin 0.6)) (jmul imgHeight (Fin 0.45));
             fh = jmul fw (Fin 1.33)
         in \<lparr>faceX = jdiv (jsub imgWidth fw) (Fin 2),
             faceY = jmul imgHeight (Fin 0.1),
             faceWidth = fw, faceHeight = fh\<rparr>))"

text \<open>Lines 124 to 127: keep the rectangle inside the image.\<close>

definition clampFace :: "jsnum \<Rightarrow> jsnum \<Rightarrow> face \<Rightarrow> face" where
  "clampFace imgWidth imgHeight f =
     (let fx = Math_max (Fin 0) (Math_min (faceX f) (jsub imgWidth (faceWidth f)));
          fy = Math_max (Fin 0) (Math_min (faceY f) (jsub imgHeight (faceHeight f)));
          fw = Math_min (faceWidth f) (jsub imgWidth fx);
          fh = Math_min (faceHeight f) (jsub imgHeight fy)
      in \<lparr>faceX = fx, faceY = fy, faceWidth = fw, faceHeight = fh\<rparr>)"

text \<open>Line 143: the bounds on the zoom.\<close>

definition limitZoom :: "jsnum \<Rightarrow> jsnum" where
  "limitZoom newZoom = Math_max (Fin 10) (Math_min (Fin 200) newZoom)"

text \<open>Lines 130 to 143: fit the rectangle to the 300 x 400 frame.\<close>

definition faceZoom :: "face \<Rightarrow> jsnum" where
  "faceZoom f =
     (let cropAspectRatio = jdiv (Fin 300) (Fin 400);
          faceAspectRatio = jdiv (faceWidth f) (faceHeight f);
          newZoom = (if jgt faceAspectRatio cropAspectRatio
                     then jmul (jdiv (Fin 400) (faceHeight f)) (Fin 100)
                     else jmul (jdiv (Fin 300) (faceWidth f)) (Fin 100))
      in limitZoom newZoom)"

text \<open>Lines 146 to 152: the position that centres the rectangle in the frame.\<close>

definition facePosition :: "face \<Rightarrow> jsnum \<Rightarrow> point" where
  "facePosition f newZoom =
     (let scaledFaceX = jmul (faceX f) (jdiv newZoom (Fin 100));
          scaledFaceY = jmul (faceY f) (jdiv newZoom (Fin 100));
          newX = jsub (jsub (Fin 150) scaledFaceX)
                   (jdiv (jmul (faceWidth f) (jdiv newZoom (Fin 100))) (Fin 2));
          newY = jsub (jsub (Fin 200) scaledFaceY)
                   (jdiv (jmul (faceHeight f) (jdiv newZoom (Fin 100))) (Fin 2))
      in \<lparr>pos_x = newX, pos_y = newY\<rparr>)"

text \<open>
  The viewport of the editor: the state variables \<open>zoom\<close> and \<open>position\<close>.
\<close>

record viewport =
  zoom :: jsnum
  position :: point

text \<open>
  The body of the \<open>try\<close> block, lines 96 to 156. It is arithmetic and two state
  updates, and JavaScript arithmetic does not throw, so it always completes.
\<close>

definition detectedFace :: "jsnum \<Rightarrow> jsnum \<Rightarrow> face" where
  "detectedFace imgWidth imgHeight = clampFace imgWidth imgHeight (estimateFace imgWidth imgHeight)"

definition detectFaceAndCrop_try :: "jsnum \<Rightarrow> jsnum \<Rightarrow> viewport" where
  "detectFaceAndCrop_try imgWidth imgHeight =
     (let f = detectedFace imgWidth imgHeight;
          newZoom = faceZoom f
      in \<lparr>zoom = newZoom, position = facePosition f newZoom\<rparr>)"

text \<open>The \<open>catch\<close> handler, lines 161 and 162.\<close>

definition fallbackViewport :: viewport where
  "fallbackViewport = \<lparr>zoom = Fin 100, position = \<lparr>pos_x = Fin 0, pos_y = Fin 0\<rparr>\<rparr>"

text \<open>\<open>Number.isFinite\<close>, and a rectangle whose four numbers are finite.\<close>

fun isFin :: "jsnum \<Rightarrow> bool" where
  "isFin (Fin _) = True"
| "isFin _ = False"

definition finiteFace :: "face \<Rightarrow> bool" where
  "finiteFace f \<longleftrightarrow>
     isFin (faceX f) \<and> isFin (faceY f) \<and> isFin (faceWidth f) \<and> isFin (faceHeight f)"

definition faceCentre :: "face \<Rightarrow> point" where
  "faceCentre f = \<lparr>pos_x = jadd (faceX f) (jdiv (faceWidth f) (Fin 2)),
                   pos_y = jadd (faceY f) (jdiv (faceHeight f) (Fin 2))\<rparr>"

section \<open>The viewport mapping\<close>

text \<open>
  The preview (lines 411 to 436) shows the image under the CSS transforms
  \<open>translate(position.x, position.y)\<close> on the container and \<open>scale(zoom / 100)\<close>
  with origin top left on the image: a source coordinate \<open>s\<close> of an image laid
  out at its natural size is displayed at \<open>s * (zoom / 100) + position\<close>, on each
  axis.
\<close>

definition toDisplay :: "jsnum \<Rightarrow> jsnum \<Rightarrow> jsnum \<Rightarrow> jsnum" where
  "toDisplay zm pan s = jadd (jmul s (jdiv zm (Fin 100))) pan"

text \<open>
  The inverse mapping in the words of the specification:
  \<open>source = (outputCoord - pan) / (zoom / 100)\<close>.
\<close>

definition toSource_spec :: "jsnum \<Rightarrow> jsnum \<Rightarrow> jsnum \<Rightarrow> jsnum" where
  "toSource_spec zm pan out = jdiv (jsub out pan) (jdiv zm (Fin 100))"

text \<open>
  Lines 272 to 289 of \<open>handleSave\<close>: the part of the source that is visible in
  the 300 x 400 frame, in source coordinates.
\<close>

record sourceRect =
  sourceLeft :: jsnum
  sourceTop :: jsnum
  sourceRight :: jsnum
  sourceBottom :: jsnum

definition visibleSource :: "jsnum \<Rightarrow> point \<Rightarrow> sourceRect" where
  "visibleSource zm pos =
     (let zoomFactor = jdiv zm (Fin 100);
          visibleLeft = jneg (pos_x pos);
          visibleTop = jneg (pos_y pos);
          visibleRight = jadd visibleLeft (Fin 300);
          visibleBottom = jadd visibleTop (Fin 400)
      in \<lparr>sourceLeft = jdiv visibleLeft zoomFactor,
          sourceTop = jdiv visibleTop zoomFactor,
          sourceRight = jdiv visibleRight zoomFactor,
          sourceBottom = jdiv visibleBottom zoomFactor\<rparr>)"

section \<open>The canvas\<close>

type_synonym byte = "8 word"

text \<open>
  The image element: whether it is still loading, loaded or broken (\<open>complete\<close>
  is true in the last two states), its natural size and its RGBA bytes. A canvas: its
  size, whether \<open>getContext("2d")\<close> gives a context, and its bitmap as RGBA bytes,
  row by row, as \<open>getImageData\<close> returns it.
\<close>

datatype loadState = Loading | Loaded | Broken

record image =
  load_state :: loadState
  naturalWidth :: nat
  naturalHeight :: nat
  image_data :: "byte list"

record canvas =
  canvas_width :: nat
  canvas_height :: nat
  context2d :: bool
  canvas_data :: "byte list"

text \<open>Assigning \<open>canvas.width\<close> or \<open>canvas.height\<close> clears the bitmap to transparent black.\<close>

definition set_size :: "nat \<Rightarrow> nat \<Rightarrow> canvas \<Rightarrow> canvas" where
  "set_size w h cv =
     cv\<lparr>canvas_width := w, canvas_height := h, canvas_data := replicate (4 * w * h) 0\<rparr>"

text \<open>
  \<open>fillRect(x, y, w, h)\<close> with an opaque fill style given by its four bytes: byte
  \<open>i\<close> of the bitmap belongs to pixel \<open>i div 4\<close>, in column \<open>i div 4 mod width\<close>
  of row \<open>i div 4 div width\<close>.
\<close>

definition fillRect :: "byte list \<Rightarrow> nat \<Rightarrow> nat \<Rightarrow> nat \<Rightarrow> nat \<Rightarrow> canvas \<Rightarrow> canvas" where
  "fillRect style rx ry rw rh cv =
     cv\<lparr>canvas_data :=
          map (\<lambda>i. let px = i div 4 mod canvas_width cv; py = i div 4 div canvas_width cv
                   in if rx \<le> px \<and> px < rx + rw \<and> ry \<le> py \<and> py < ry + rh
                      then style ! (i mod 4) else canvas_data cv ! i)
              [0 ..< length (canvas_data cv)]\<rparr>"

definition white :: "byte list" where
  "white = [255, 255, 255, 255]"

text \<open>
  The nine-argument \<open>drawImage\<close> of the HTML canvas, in the order of its
  steps. It returns at once when an argument is not finite. It throws
  \<open>InvalidStateError\<close> when the image is broken. Nothing is painted when the
  image is not yet decoded or has a natural width or height of zero, when \<open>sw\<close>
  or \<open>sh\<close> is zero, or when the source rectangle (the rectangle with corners
  \<open>(sx, sy)\<close> and \<open>(sx + sw, sy + sh)\<close>, so a negative extent reaches
  backwards) clipped to the image is empty. Otherwise the browser resamples and
  composites: that part is the parameter \<open>paint\<close>, which gives each byte of the
  bitmap its new value from the image, the arguments and the bitmap before.
  \<open>drawImage\<close> never changes the size of the bitmap.
\<close>

datatype exn = InvalidStateError

record drawArgs =
  arg_sx :: jsnum
  arg_sy :: jsnum
  arg_sw :: jsnum
  arg_sh :: jsnum
  arg_dx :: jsnum
  arg_dy :: jsnum
  arg_dw :: jsnum
  arg_dh :: jsnum

type_synonym painter = "image \<Rightarrow> drawArgs \<Rightarrow> byte list \<Rightarrow> nat \<Rightarrow> byte"

definition finiteArgs :: "drawArgs \<Rightarrow> bool" where
  "finiteArgs a \<longleftrightarrow>
     isFin (arg_sx a) \<and> isFin (arg_sy a) \<and> isFin (arg_sw a) \<and> isFin (arg_sh a) \<and>
     isFin (arg_dx a) \<and> isFin (arg_dy a) \<and> isFin (arg_dw a) \<and> isFin (arg_dh a)"

definition clippedSourceEmpty :: "image \<Rightarrow> drawArgs \<Rightarrow> bool" where
  "clippedSourceEmpty img a =
     (let x0 = Math_min (arg_sx a) (jadd (arg_sx a) (arg_sw a));
          x1 = Math_max (arg_sx a) (jadd (arg_sx a) (arg_sw a));
          y0 = Math_min (arg_sy a) (jadd (arg_sy a) (arg_sh a));
          y1 = Math_max (arg_sy a) (jadd (arg_sy a) (arg_sh a));
          cx0 = Math_max (Fin 0) x0;
          cx1 = Math_min (Fin (real (naturalWidth img))) x1;
          cy0 = Math_max (Fin 0) y0;
          cy1 = Math_min (Fin (real (naturalHeight img))) y1
      in \<not> (jlt cx0 cx1 \<and> jlt cy0 cy1))"

definition drawImage :: "painter \<Rightarrow> image \<Rightarrow> drawArgs \<Rightarrow> canvas \<Rightarrow> exn + canvas" where
  "drawImage paint img a cv =
     (if \<not> finiteArgs a then Inr cv
      else if load_state img = Broken then Inl InvalidStateError
      else if load_state img = Loading \<or> naturalWidth img = 0 \<or> naturalHeight img = 0
        then Inr cv
      else if arg_sw a = Fin 0 \<or> arg_sh a = Fin 0 then Inr cv
      else if clippedSourceEmpty img a then Inr cv
      else Inr (cv\<lparr>canvas_data :=
                     map (\<lambda>i. paint img a (canvas_data cv) i)
                       [0 ..< length (canvas_data cv)]\<rparr>))"

section \<open>The greyscale filter (handleSave, lines 320 to 334)\<close>

text \<open>
  Reading a \<open>Uint8ClampedArray\<close>: an index past the end gives \<open>undefined\<close>, which
  is NaN in arithmetic. Writing one converts the number with \<open>ToUint8Clamp\<close>:
  NaN becomes 0, the value is clamped to 0 .. 255 and rounded to the nearest integer,
  a tie to the even one. A write past the end is ignored, as \<open>xs[i := v]\<close> is.
\<close>

definition elem :: "byte list \<Rightarrow> nat \<Rightarrow> jsnum" where
  "elem data i = (if i < length data then Fin (real (unat (data ! i))) else NaN)"

fun ToUint8Clamp :: "jsnum \<Rightarrow> byte" where
  "ToUint8Clamp NaN = 0"
| "ToUint8Clamp NInf = 0"
| "ToUint8Clamp PInf = 255"
| "ToUint8Clamp (Fin r) =
     (if r \<le> 0 then 0
      else if 255 \<le> r then 255
      else (let f = \<lfloor>r\<rfloor> in
            if real_of_int f + 0.5 < r then of_int (f + 1)
            else if r < real_of_int f + 0.5 then of_int f
            else if even f then of_int f
            else of_int (f + 1)))"

text \<open>
  Binary64, round to nearest, ties to even. For \<open>x > 0\<close>, \<open>exponent x\<close> is
  the \<open>e\<close> with \<open>2 ^ e \<le> x < 2 ^ (e + 1)\<close>; the doubles near \<open>x\<close> are the
  multiples of \<open>2 ^ (e - 52)\<close>, or of \<open>2 ^ -1074\<close> in the subnormal range, and
  a result of magnitude \<open>2 ^ 1024\<close> or more is an infinity.
\<close>

definition roundHalfEven :: "real \<Rightarrow> int" where
  "roundHalfEven v =
     (let f = \<lfloor>v\<rfloor> in
      if real_of_int f + 0.5 < v then f + 1
      else if v < real_of_int f + 0.5 then f
      else if even f then f
      else f + 1)"

definition exponent :: "real \<Rightarrow> int" where
  "exponent x = (if 1 \<le> x then bitlen \<lfloor>x\<rfloor> - 1 else - bitlen (\<lceil>1 / x\<rceil> - 1))"

definition binary64 :: "real \<Rightarrow> jsnum" where
  "binary64 x =
     (if x = 0 then Fin 0
      else (let q = 2 powi (max (exponent \<bar>x\<bar>) (- 1022) - 52);
                r = q * real_of_int (roundHalfEven (x / q))
            in if 2 powi 1024 \<le> \<bar>r\<bar> then signed_inf (0 < x) else Fin r))"

text \<open>The product and the sum of two doubles, correctly rounded.\<close>

definition round64 :: "jsnum \<Rightarrow> jsnum" where
  "round64 a = (case a of Fin r \<Rightarrow> binary64 r | _ \<Rightarrow> a)"

definition mul64 :: "jsnum \<Rightarrow> jsnum \<Rightarrow> jsnum" where
  "mul64 a b = round64 (jmul a b)"

definition add64 :: "jsnum \<Rightarrow> jsnum \<Rightarrow> jsnum" where
  "add64 a b = round64 (jadd a b)"

text \<open>
  Lines 325 and 326: \<open>data[i] * 0.299 + data[i + 1] * 0.587 + data[i + 2] * 0.114\<close>,
  the literals being the doubles nearest to 0.299, 0.587 and 0.114.
\<close>

definition grey_of :: "jsnum \<Rightarrow> jsnum \<Rightarrow> jsnum \<Rightarrow> jsnum" where
  "grey_of r g b =
     add64 (add64 (mul64 r (binary64 0.299)) (mul64 g (binary64 0.587)))
       (mul64 b (binary64 0.114))"

function greyscaleLoop :: "nat \<Rightarrow> byte list \<Rightarrow> byte list" where
  "greyscaleLoop i data =
     (if i < length data then
        (let grey = grey_of (elem data i) (elem data (i + 1)) (elem data (i + 2))
         in greyscaleLoop (i + 4)
              (data[i := ToUint8Clamp grey, i + 1 := ToUint8Clamp grey, i + 2 := ToUint8Clamp grey]))
      else data)"
  by pat_completeness auto
termination
  by (relation "measure (\<lambda>(i, data). length data - i)") auto

declare greyscaleLoop.simps [simp del]

definition greyscale :: "byte list \<Rightarrow> byte list" where
  "greyscale data = greyscaleLoop 0 data"

text \<open>The same filter pixel by pixel, used to reason about the loop.\<close>

fun greyPixels :: "byte list \<Rightarrow> byte list" where
  "greyPixels (r # g # b # a # rest) =
     (let v = ToUint8Clamp (grey_of (Fin (real (unat r))) (Fin (real (unat g))) (Fin (real (unat b))))
      in v # v # v # a # greyPixels rest)"
| "greyPixels [r, g, b] =
     (let v = ToUint8Clamp (grey_of (Fin (real (unat r))) (Fin (real (unat g))) (Fin (real (unat b))))
      in [v, v, v])"
| "greyPixels [r, g] = [0, 0]"
| "greyPixels [r] = [0]"
| "greyPixels [] = []"

section \<open>The editor component (ImageEditor.tsx)\<close>

record cropArea =
  crop_x :: jsnum
  crop_y :: jsnum
  crop_width :: jsnum
  crop_height :: jsnum

text \<open>
  The crop handed to \<open>onImageSave\<close>: the frame \<open>x, y, width, height\<close>, the
  \<open>zoom\<close> and \<open>position\<close> of the viewport, the URL of the encoded result and
  the greyscale flag.
\<close>

record cropData = viewport +
  area :: cropArea
  crop_croppedUrl :: "string option"
  crop_isGreyscale :: "bool option"

text \<open>The state variables of the component; \<open>zoom\<close> and \<open>position\<close> are the viewport.\<close>

record editor = viewport +
  isDragging :: bool
  dragStart :: point
  cropState :: cropArea
  faceDetected :: bool
  isDetecting :: bool
  isGreyscale :: bool

text \<open>The two refs the handlers read: the image element and the hidden canvas.\<close>

record dom =
  imageRef :: "image option"
  canvasRef :: "canvas option"

definition defaultArea :: cropArea where
  "defaultArea = \<lparr>crop_x = Fin 0, crop_y = Fin 0, crop_width = Fin 300, crop_height = Fin 400\<rparr>"

text \<open>Lines 52 to 59: the initial state.\<close>

definition initialEditor :: editor where
  "initialEditor =
     \<lparr>zoom = Fin 100, position = \<lparr>pos_x = Fin 0, pos_y = Fin 0\<rparr>,
      isDragging = False, dragStart = \<lparr>pos_x = Fin 0, pos_y = Fin 0\<rparr>,
      cropState = defaultArea, faceDetected = False, isDetecting = False, isGreyscale = True\<rparr>"

text \<open>
  Line 92, \<open>ctx.drawImage(img, 0, 0)\<close>: the three-argument form draws the whole
  image at its natural size.
\<close>

definition wholeImage :: "image \<Rightarrow> drawArgs" where
  "wholeImage img =
     \<lparr>arg_sx = Fin 0, arg_sy = Fin 0,
      arg_sw = Fin (real (naturalWidth img)), arg_sh = Fin (real (naturalHeight img)),
      arg_dx = Fin 0, arg_dy = Fin 0,
      arg_dw = Fin (real (naturalWidth img)), arg_dh = Fin (real (naturalHeight img))\<rparr>"

text \<open>
  \<open>detectFaceAndCrop\<close>, lines 68 to 166. \<open>setIsDetecting(true)\<close> comes first;
  an image that is not \<open>complete\<close> ends the call there. The canvas is sized to the
  image and the image is drawn on it, in lines 88 to 92, before the \<open>try\<close> block:
  an exception of \<open>drawImage\<close> leaves the handler at that line, past the
  \<open>catch\<close> handler and past \<open>setIsDetecting(false)\<close>. The body of the
  \<open>try\<close> block is arithmetic and three state setters, none of which throws, so
  the \<open>catch\<close> handler of lines 158 to 163, which would set \<open>fallbackViewport\<close>,
  has no way in.
\<close>

definition detectFaceAndCrop :: "painter \<Rightarrow> dom \<Rightarrow> editor \<Rightarrow> editor" where
  "detectFaceAndCrop paint d ed =
     (case imageRef d of None \<Rightarrow> ed | Some img \<Rightarrow>
       (case canvasRef d of None \<Rightarrow> ed | Some cv \<Rightarrow>
          if \<not> context2d cv then ed\<lparr>isDetecting := False\<rparr>
          else if load_state img = Loading then ed\<lparr>isDetecting := True\<rparr>
          else (case drawImage paint img (wholeImage img)
                       (set_size (naturalWidth img) (naturalHeight img)
                          (set_size (naturalWidth img) (canvas_height cv) cv)) of
                  Inl e \<Rightarrow> ed\<lparr>isDetecting := True\<rparr>
                | Inr drawn \<Rightarrow>
                    (let v = detectFaceAndCrop_try (Fin (real (naturalWidth img)))
                               (Fin (real (naturalHeight img)))
                     in ed\<lparr>zoom := zoom v, position := position v,
                           faceDetected := True, isDetecting := False\<rparr>))))"

text \<open>\<open>getOptimalZoom\<close>, lines 231 to 248.\<close>

definition getOptimalZoom :: "dom \<Rightarrow> jsnum" where
  "getOptimalZoom d =
     (case imageRef d of None \<Rightarrow> Fin 100 | Some img \<Rightarrow>
        (let scaleX = jdiv (Fin 300) (Fin (real (naturalWidth img)));
             scaleY = jdiv (Fin 400) (Fin (real (naturalHeight img)));
             minScale = Math_max scaleX scaleY
         in if jgt minScale (Fin 1) then Math_min (jmul minScale (Fin 100)) (Fin 200)
            else Fin 100))"

text \<open>
  The effect of lines 169 to 198, run with the crop of the selected image (if an
  image is selected): a saved crop is restored, otherwise the defaults are set.
\<close>

definition selectionEffect :: "cropData option option \<Rightarrow> dom \<Rightarrow> editor \<Rightarrow> editor" where
  "selectionEffect selected d ed =
     (case selected of
        None \<Rightarrow> ed
      | Some (Some c) \<Rightarrow>
          ed\<lparr>faceDetected := False, isDetecting := False, cropState := area c,
             zoom := js_or (zoom c) (Fin 100), position := position c,
             isGreyscale := (case crop_isGreyscale c of None \<Rightarrow> True | Some g \<Rightarrow> g)\<rparr>
      | Some None \<Rightarrow>
          ed\<lparr>faceDetected := False, isDetecting := False, cropState := defaultArea,
             zoom := getOptimalZoom d, position := \<lparr>pos_x = Fin 0, pos_y = Fin 0\<rparr>,
             isGreyscale := True\<rparr>)"

text \<open>
  Lines 200 to 228: dragging and the zoom slider. \<open>value[0]\<close> of an empty array is
  \<open>undefined\<close>, NaN as a number.
\<close>

definition handleMouseDown :: "jsnum \<Rightarrow> jsnum \<Rightarrow> editor \<Rightarrow> editor" where
  "handleMouseDown clientX clientY ed =
     ed\<lparr>isDragging := True,
        dragStart := \<lparr>pos_x = jsub clientX (pos_x (position ed)),
                      pos_y = jsub clientY (pos_y (position ed))\<rparr>\<rparr>"

definition handleMouseMove :: "jsnum \<Rightarrow> jsnum \<Rightarrow> editor \<Rightarrow> editor" where
  "handleMouseMove clientX clientY ed =
     (if \<not> isDragging ed then ed
      else ed\<lparr>position := \<lparr>pos_x = jsub clientX (pos_x (dragStart ed)),
                           pos_y = jsub clientY (pos_y (dragStart ed))\<rparr>\<rparr>)"

definition handleMouseUp :: "editor \<Rightarrow> editor" where
  "handleMouseUp ed = ed\<lparr>isDragging := False\<rparr>"

definition handleZoomChange :: "jsnum list \<Rightarrow> editor \<Rightarrow> editor" where
  "handleZoomChange val ed = ed\<lparr>zoom := (case val of [] \<Rightarrow> NaN | v # _ \<Rightarrow> v)\<rparr>"

text \<open>Lines 518 to 522: the button Reset Position.\<close>

definition resetPosition :: "editor \<Rightarrow> editor" where
  "resetPosition ed =
     ed\<lparr>zoom := Fin 100, position := \<lparr>pos_x = Fin 0, pos_y = Fin 0\<rparr>, faceDetected := False\<rparr>"

text \<open>
  \<open>handleSave\<close>, lines 270 to 304: the arguments of \<open>drawImage\<close>, the visible
  part of the source clamped to the image and the place in the frame where it goes.
\<close>

definition cropArgs :: "image \<Rightarrow> jsnum \<Rightarrow> point \<Rightarrow> drawArgs" where
  "cropArgs img zm pos =
     (let imgWidth = Fin (real (naturalWidth img));
          imgHeight = Fin (real (naturalHeight img));
          zoomFactor = jdiv zm (Fin 100);
          src = visibleSource zm pos;
          clampedSourceLeft = Math_max (Fin 0) (sourceLeft src);
          clampedSourceTop = Math_max (Fin 0) (sourceTop src);
          clampedSourceRight = Math_min imgWidth (sourceRight src);
          clampedSourceBottom = Math_min imgHeight (sourceBottom src);
          clampedSourceWidth = jsub clampedSourceRight clampedSourceLeft;
          clampedSourceHeight = jsub clampedSourceBottom clampedSourceTop
      in \<lparr>arg_sx = clampedSourceLeft, arg_sy = clampedSourceTop,
          arg_sw = clampedSourceWidth, arg_sh = clampedSourceHeight,
          arg_dx = jmul (jsub clampedSourceLeft (sourceLeft src)) zoomFactor,
          arg_dy = jmul (jsub clampedSourceTop (sourceTop src)) zoomFactor,
          arg_dw = jmul clampedSourceWidth zoomFactor,
          arg_dh = jmul clampedSourceHeight zoomFactor\<rparr>)"

text \<open>
  Lines 258 to 334: the canvas is sized 300 x 400, filled white, the crop is drawn
  and, if asked for, the bitmap is turned to grey. \<open>getImageData(0, 0, 300, 400)\<close>
  and \<open>putImageData\<close> read and write the whole bitmap of the 300 x 400 canvas.
  An exception of \<open>drawImage\<close> ends the handler there.
\<close>

definition renderCrop ::
  "painter \<Rightarrow> image \<Rightarrow> canvas \<Rightarrow> jsnum \<Rightarrow> point \<Rightarrow> bool \<Rightarrow> exn + canvas" where
  "renderCrop paint img cv zm pos grey =
     (let c1 = set_size 300 (canvas_height cv) cv;
          c2 = set_size 300 400 c1;
          c3 = fillRect white 0 0 300 400 c2
      in case drawImage paint img (cropArgs img zm pos) c3 of
           Inl e \<Rightarrow> Inl e
         | Inr c4 \<Rightarrow>
             Inr (if grey then c4\<lparr>canvas_data := greyscale (canvas_data c4)\<rparr> else c4))"

text \<open>
  \<open>handleSave\<close> up to \<open>toBlob\<close>: the canvas that is encoded, or nothing when
  the guard of line 251 or the context is missing (\<open>null\<close> and the empty string
  are falsy) or when \<open>drawImage\<close> has thrown, so that \<open>toBlob\<close> is never
  reached.
\<close>

definition handleSave :: "painter \<Rightarrow> string option \<Rightarrow> dom \<Rightarrow> editor \<Rightarrow> canvas option" where
  "handleSave paint selId d ed =
     (if selId = None \<or> selId = Some [] then None
      else (case imageRef d of None \<Rightarrow> None | Some img \<Rightarrow>
             (case canvasRef d of None \<Rightarrow> None | Some cv \<Rightarrow>
                if \<not> context2d cv then None
                else (case renderCrop paint img cv (zoom ed) (position ed) (isGreyscale ed) of
                        Inl e \<Rightarrow> None
                      | Inr out \<Rightarrow> Some out))))"

text \<open>Lines 341 to 350: the crop passed to \<open>onImageSave\<close> once the blob exists.\<close>

definition savedCrop :: "editor \<Rightarrow> string \<Rightarrow> cropData" where
  "savedCrop ed url =
     \<lparr>zoom = zoom ed,
      position = \<lparr>pos_x = pos_x (position ed), pos_y = pos_y (position ed)\<rparr>,
      area = cropState ed, crop_croppedUrl = Some url,
      crop_isGreyscale = Some (isGreyscale ed)\<rparr>"

section \<open>The page (ImageProcessor.tsx)\<close>

text \<open>
  One record per uploaded image. \<open>originalName\<close> is the name of \<open>originalFile\<close>,
  \<open>crop\<close> the crop of the last save, if any.
\<close>

record processedImage =
  img_id :: string
  originalName :: string
  previewUrl :: string
  croppedUrl :: "string option"
  isProcessed :: bool
  isEdited :: bool
  isAccepted :: bool
  crop :: "cropData option"

text \<open>An optional string is truthy when it is present and not empty.\<close>

definition truthy :: "string option \<Rightarrow> bool" where
  "truthy s = (case s of None \<Rightarrow> False | Some u \<Rightarrow> u \<noteq> [])"

text \<open>\<open>handleImageEdit\<close>, lines 88 to 106.\<close>

definition handleImageEdit ::
  "string \<Rightarrow> string \<Rightarrow> cropData option \<Rightarrow> processedImage list \<Rightarrow> processedImage list" where
  "handleImageEdit imageId url cropData imgs =
     map (\<lambda>img. if img_id img = imageId
                then img\<lparr>croppedUrl := Some url, isEdited := True,
                         crop := cropData, isAccepted := True\<rparr>
                else img) imgs"

text \<open>
  The \<open>onImageSave\<close> passed to the editor, lines 309 to 315:
  \<open>handleImageEdit(id, crop.croppedUrl || selectedImage.previewUrl, crop)\<close>.
\<close>

definition onImageSave ::
  "processedImage \<Rightarrow> string \<Rightarrow> cropData \<Rightarrow> processedImage list \<Rightarrow> processedImage list" where
  "onImageSave selectedImage imageId c imgs =
     handleImageEdit imageId
       (case crop_croppedUrl c of
          None \<Rightarrow> previewUrl selectedImage
        | Some u \<Rightarrow> if u \<noteq> [] then u else previewUrl selectedImage)
       (Some c) imgs"

text \<open>\<open>handleAcceptImage\<close>, lines 117 to 135, with the selection of the page.\<close>

definition handleAcceptImage ::
  "string option \<Rightarrow> string \<Rightarrow> bool \<Rightarrow> processedImage list \<Rightarrow> processedImage list" where
  "handleAcceptImage selId imageId accepted imgs =
     map (\<lambda>img. if img_id img = imageId
                then (if accepted \<and> \<not> truthy (croppedUrl img) \<and> selId = Some imageId
                      then img\<lparr>isAccepted := accepted, isEdited := True\<rparr>
                      else img\<lparr>isAccepted := accepted,
                               isEdited := (if accepted then True else isEdited img)\<rparr>)
                else img) imgs"

text \<open>
  \<open>processImages\<close>, lines 39 to 77, once the progress has reached 100: each file,
  given by its generated id, its name and its object URL, becomes a processed record
  whose \<open>croppedUrl\<close> is the preview URL.
\<close>

definition newImage :: "string \<times> string \<times> string \<Rightarrow> processedImage" where
  "newImage f =
     (case f of (i, n, u) \<Rightarrow>
        \<lparr>img_id = i, originalName = n, previewUrl = u, croppedUrl = None,
         isProcessed = False, isEdited = False, isAccepted = False, crop = None\<rparr>)"

definition processedImages :: "(string \<times> string \<times> string) list \<Rightarrow> processedImage list" where
  "processedImages files =
     map (\<lambda>img. img\<lparr>isProcessed := True, croppedUrl := Some (previewUrl img)\<rparr>)
       (map newImage files)"

section \<open>The download stage (DownloadManager.tsx)\<close>

record downloadItem =
  dl_id :: string
  dl_originalName :: string
  dl_croppedUrl :: "string option"
  dl_isProcessed :: bool

text \<open>The props the page passes, ImageProcessor.tsx lines 332 to 340.\<close>

definition downloadProps :: "processedImage list \<Rightarrow> downloadItem list" where
  "downloadProps imgs =
     map (\<lambda>img.
            \<lparr>dl_id = img_id img, dl_originalName = originalName img,
             dl_croppedUrl =
               (if truthy (croppedUrl img) then croppedUrl img
                else if isAccepted img then Some (previewUrl img) else None),
             dl_isProcessed = (isProcessed img \<and> (isEdited img \<or> isAccepted img))\<rparr>)
       imgs"

text \<open>Lines 43 to 48: at first every processed item is selected.\<close>

definition initialSelection :: "downloadItem list \<Rightarrow> string list" where
  "initialSelection items = map dl_id (filter dl_isProcessed items)"

text \<open>Lines 92 to 94 of \<open>downloadSelectedAsZip\<close>: the items that go into the archive.\<close>

definition selectedImgs :: "downloadItem list \<Rightarrow> string list \<Rightarrow> downloadItem list" where
  "selectedImgs items selectedImages =
     filter (\<lambda>img. dl_isProcessed img \<and> truthy (dl_croppedUrl img) \<and> dl_id img \<in> set selectedImages)
       items"

text \<open>Lines 51 to 53 of \<open>downloadSingleImage\<close>: the URL that is downloaded, if any.\<close>

definition downloadSingleImage :: "downloadItem list \<Rightarrow> string \<Rightarrow> string option" where
  "downloadSingleImage items imageId =
     (case find (\<lambda>img. dl_id img = imageId) items of
        None \<Rightarrow> None
      | Some img \<Rightarrow> if truthy (dl_croppedUrl img) then dl_croppedUrl img else None)"

text \<open>
  A record contributes content to the export when its item is listed in the download
  stage (\<open>isProcessed\<close>) and carries a URL to fetch.
\<close>

definition exportable :: "processedImage \<Rightarrow> bool" where
  "exportable img =
     (case downloadProps [img] of
        [] \<Rightarrow> False
      | item # _ \<Rightarrow> dl_isProcessed item \<and> truthy (dl_croppedUrl item))"

definition exportedUrl :: "processedImage \<Rightarrow> string option" where
  "exportedUrl img =
     (case selectedImgs (downloadProps [img]) (initialSelection (downloadProps [img])) of
        [] \<Rightarrow> None
      | item # _ \<Rightarrow> dl_croppedUrl item)"

section \<open>The page and the editor together\<close>

record app =
  images :: "processedImage list"
  selectedImageId :: "string option"
  editorState :: editor

definition initialApp :: app where
  "initialApp = \<lparr>images = [], selectedImageId = None, editorState = initialEditor\<rparr>"

text \<open>The record the page calls \<open>selectedImage\<close>, line 137.\<close>

definition selectedImage :: "app \<Rightarrow> processedImage option" where
  "selectedImage s = find (\<lambda>img. Some (img_id img) = selectedImageId s) (images s)"

text \<open>
  What the user and the browser can do. The encoder behind \<open>toBlob\<close> and
  \<open>createObjectURL\<close> is a parameter: it gives the URL of the encoded canvas, or
  nothing when no blob is produced.
\<close>

datatype event =
    Upload "(string \<times> string \<times> string) list"
  | SelectImage string
  | RunEffect dom
  | AutoCrop dom
  | MouseDown jsnum jsnum
  | MouseMove jsnum jsnum
  | MouseUp
  | ZoomChange "jsnum list"
  | ResetPosition
  | GreyscaleSwitch bool
  | SaveCrop dom
  | AcceptImage string bool

type_synonym encoder = "canvas \<Rightarrow> string option"

definition saveCrop :: "painter \<Rightarrow> encoder \<Rightarrow> dom \<Rightarrow> app \<Rightarrow> app" where
  "saveCrop paint toBlob d s =
     (case selectedImage s of
        None \<Rightarrow> s
      | Some sel \<Rightarrow>
          (case handleSave paint (selectedImageId s) d (editorState s) of
             None \<Rightarrow> s
           | Some cv \<Rightarrow>
               (case toBlob cv of
                  None \<Rightarrow> s
                | Some url \<Rightarrow>
                    s\<lparr>images := onImageSave sel (img_id sel)
                                   (savedCrop (editorState s) url) (images s)\<rparr>)))"

fun handle :: "painter \<Rightarrow> encoder \<Rightarrow> event \<Rightarrow> app \<Rightarrow> app" where
  "handle paint toBlob (Upload files) s =
     (if files = [] then s
      else s\<lparr>images := images s @ processedImages files,
             selectedImageId :=
               (case processedImages files of
                  [] \<Rightarrow> None
                | img # _ \<Rightarrow> if img_id img \<noteq> [] then Some (img_id img) else None)\<rparr>)"
| "handle paint toBlob (SelectImage i) s = s\<lparr>selectedImageId := Some i\<rparr>"
| "handle paint toBlob (RunEffect d) s =
     s\<lparr>editorState := selectionEffect (map_option crop (selectedImage s)) d (editorState s)\<rparr>"
| "handle paint toBlob (AutoCrop d) s =
     s\<lparr>editorState := detectFaceAndCrop paint d (editorState s)\<rparr>"
| "handle paint toBlob (MouseDown cx cy) s =
     s\<lparr>editorState := handleMouseDown cx cy (editorState s)\<rparr>"
| "handle paint toBlob (MouseMove cx cy) s =
     s\<lparr>editorState := handleMouseMove cx cy (editorState s)\<rparr>"
| "handle paint toBlob MouseUp s = s\<lparr>editorState := handleMouseUp (editorState s)\<rparr>"
| "handle paint toBlob (ZoomChange val) s =
     s\<lparr>editorState := handleZoomChange val (editorState s)\<rparr>"
| "handle paint toBlob ResetPosition s = s\<lparr>editorState := resetPosition (editorState s)\<rparr>"
| "handle paint toBlob (GreyscaleSwitch g) s =
     s\<lparr>editorState := (editorState s)\<lparr>isGreyscale := g\<rparr>\<rparr>"
| "handle paint toBlob (SaveCrop d) s = saveCrop paint toBlob d s"
| "handle paint toBlob (AcceptImage i accepted) s =
     s\<lparr>images := handleAcceptImage (selectedImageId s) i accepted (images s)\<rparr>"

fun run :: "painter \<Rightarrow> encoder \<Rightarrow> event list \<Rightarrow> app \<Rightarrow> app" where
  "run paint toBlob [] s = s"
| "run paint toBlob (e # es) s = run paint toBlob es (handle paint toBlob e s)"

text \<open>
  The slider of lines 447 to 454 has \<open>min = 10\<close>, \<open>max = 200\<close>: the values it
  hands to \<open>handleZoomChange\<close> are one number in that range.
\<close>

fun inBounds :: "jsnum \<Rightarrow> bool" where
  "inBounds (Fin r) = (10 \<le> r \<and> r \<le> 200)"
| "inBounds _ = False"

fun fromSlider :: "event \<Rightarrow> bool" where
  "fromSlider (ZoomChange val) = (case val of [v] \<Rightarrow> inBounds v | _ \<Rightarrow> False)"
| "fromSlider _ = True"

text \<open>The zoom of the editor and of every saved crop is within the bounds.\<close>

definition cropsInBounds :: "processedImage list \<Rightarrow> bool" where
  "cropsInBounds imgs =
     list_all (\<lambda>img. case crop img of None \<Rightarrow> True | Some c \<Rightarrow> inBounds (zoom c)) imgs"

definition zoomInvariant :: "app \<Rightarrow> bool" where
  "zoomInvariant s \<longleftrightarrow> inBounds (zoom (editorState s)) \<and> cropsInBounds (images s)"


text \<open>
  The area of the clamped source rectangle of \<open>handleSave\<close>,
  \<open>clampedSourceWidth * clampedSourceHeight\<close>.
\<close>

definition clampedSourceArea :: "image \<Rightarrow> jsnum \<Rightarrow> point \<Rightarrow> jsnum" where
  "clampedSourceArea img zm pos =
     jmul (arg_sw (cropArgs img zm pos)) (arg_sh (cropArgs img zm pos))"

section \<open>Arithmetic on finite numbers\<close>

lemma isFin_iff: "isFin a \<longleftrightarrow> (\<exists>r. a = Fin r)"
  by (cases a) auto

lemma jsub_Fin [simp]: "jsub (Fin a) (Fin b) = Fin (a - b)"
  by (simp add: jsub_def)

lemma jgt_Fin [simp]: "jgt (Fin a) (Fin b) \<longleftrightarrow> b < a"
  by (simp add: jgt_def)

lemma jge_Fin [simp]: "jge (Fin a) (Fin b) \<longleftrightarrow> b \<le> a"
  by (auto simp add: jge_def)

lemma Math_min_Fin [simp]: "Math_min (Fin a) (Fin b) = Fin (min a b)"
  by (auto simp add: Math_min_def)

lemma Math_max_Fin [simp]: "Math_max (Fin a) (Fin b) = Fin (max a b)"
  by (auto simp add: Math_max_def)

lemma isFin_jneg [simp]: "isFin a \<Longrightarrow> isFin (jneg a)"
  by (auto simp: isFin_iff)

lemma isFin_jadd [simp]: "isFin a \<Longrightarrow> isFin b \<Longrightarrow> isFin (jadd a b)"
  by (auto simp: isFin_iff)

lemma isFin_jsub [simp]: "isFin a \<Longrightarrow> isFin b \<Longrightarrow> isFin (jsub a b)"
  by (auto simp: isFin_iff)

lemma isFin_jmul [simp]: "isFin a \<Longrightarrow> isFin b \<Longrightarrow> isFin (jmul a b)"
  by (auto simp: isFin_iff)

lemma isFin_Math_min [simp]: "isFin a \<Longrightarrow> isFin b \<Longrightarrow> isFin (Math_min a b)"
  by (auto simp: isFin_iff)

lemma isFin_Math_max [simp]: "isFin a \<Longrightarrow> isFin b \<Longrightarrow> isFin (Math_max a b)"
  by (auto simp: isFin_iff)

lemma isFin_jdiv [simp]: "isFin a \<Longrightarrow> c \<noteq> 0 \<Longrightarrow> isFin (jdiv a (Fin c))"
  by (auto simp: isFin_iff)

lemma inBounds_iff: "inBounds z \<longleftrightarrow> (\<exists>r. z = Fin r \<and> 10 \<le> r \<and> r \<le> 200)"
  by (cases z) auto

section \<open>The estimator\<close>

lemma estimateFace_finite: "isFin w \<Longrightarrow> isFin h \<Longrightarrow> finiteFace (estimateFace w h)"
  by (simp add: estimateFace_def finiteFace_def Let_def)

lemma clampFace_finite:
  "isFin w \<Longrightarrow> isFin h \<Longrightarrow> finiteFace f \<Longrightarrow> finiteFace (clampFace w h f)"
  by (simp add: clampFace_def finiteFace_def Let_def)

lemma detectedFace_finite: "isFin w \<Longrightarrow> isFin h \<Longrightarrow> finiteFace (detectedFace w h)"
  by (simp add: detectedFace_def estimateFace_finite clampFace_finite)

lemma limitZoom_inBounds: "z \<noteq> NaN \<Longrightarrow> inBounds (limitZoom z)"
  by (cases z) (auto simp: limitZoom_def Math_min_def Math_max_def)

lemma fit_not_NaN: "c \<noteq> 0 \<Longrightarrow> isFin d \<Longrightarrow> jmul (jdiv (Fin c) d) (Fin 100) \<noteq> NaN"
  by (cases d; cases "0 < c") auto

lemma faceZoom_inBounds: "finiteFace f \<Longrightarrow> inBounds (faceZoom f)"
  unfolding faceZoom_def Let_def finiteFace_def
  by (rule limitZoom_inBounds) (simp add: fit_not_NaN)

lemma centre_x:
  assumes "finiteFace f"
  shows "toDisplay (Fin z) (pos_x (facePosition f (Fin z))) (pos_x (faceCentre f)) = Fin 150"
proof -
  obtain a c where "faceX f = Fin a" "faceWidth f = Fin c"
    using assms by (auto simp: finiteFace_def isFin_iff)
  then show ?thesis
    by (simp add: toDisplay_def facePosition_def faceCentre_def Let_def algebra_simps)
qed

lemma centre_y:
  assumes "finiteFace f"
  shows "toDisplay (Fin z) (pos_y (facePosition f (Fin z))) (pos_y (faceCentre f)) = Fin 200"
proof -
  obtain b d where "faceY f = Fin b" "faceHeight f = Fin d"
    using assms by (auto simp: finiteFace_def isFin_iff)
  then show ?thesis
    by (simp add: toDisplay_def facePosition_def faceCentre_def Let_def algebra_simps)
qed

lemma detect_centres:
  fixes w h :: real
  shows "toDisplay (zoom (detectFaceAndCrop_try (Fin w) (Fin h)))
           (pos_x (position (detectFaceAndCrop_try (Fin w) (Fin h))))
           (pos_x (faceCentre (detectedFace (Fin w) (Fin h)))) = Fin 150 \<and>
         toDisplay (zoom (detectFaceAndCrop_try (Fin w) (Fin h)))
           (pos_y (position (detectFaceAndCrop_try (Fin w) (Fin h))))
           (pos_y (faceCentre (detectedFace (Fin w) (Fin h)))) = Fin 200"
proof -
  have fin: "finiteFace (detectedFace (Fin w) (Fin h))"
    by (simp add: detectedFace_finite)
  then obtain r where "faceZoom (detectedFace (Fin w) (Fin h)) = Fin r"
    using faceZoom_inBounds inBounds_iff by blast
  then show ?thesis
    using fin by (simp add: detectFaceAndCrop_try_def Let_def centre_x centre_y)
qed

lemma estimateFace_portrait:
  fixes w h :: real
  assumes "0 < w" "0 < h" "0.6 < w / h" "w / h < 1.5"
  shows "estimateFace (Fin w) (Fin h) =
     \<lparr>faceX = Fin ((w - min (0.4 * w) (0.3 * h)) / 2), faceY = Fin (0.15 * h),
      faceWidth = Fin (min (0.4 * w) (0.3 * h)),
      faceHeight = Fin (1.2 * min (0.4 * w) (0.3 * h))\<rparr>"
  using assms by (simp add: estimateFace_def Let_def mult.commute)

text \<open>
  C2, as amended. For a source of positive width \<open>W\<close> and height \<open>H\<close> whose aspect
  ratio lies strictly between 0.6 and 1.5, the candidate rectangle has width
  \<open>min (0.4 W) (0.3 H)\<close>, height 1.2 times that width, is centred horizontally
  and starts at \<open>0.15 H\<close> from the top.
\<close>

theorem C2_portrait_band:
  fixes W H :: nat
  assumes "0 < W" "0 < H" "0.6 < real W / real H" "real W / real H < 1.5"
  shows "estimateFace (Fin (real W)) (Fin (real H)) =
     \<lparr>faceX = Fin ((real W - min (0.4 * real W) (0.3 * real H)) / 2),
      faceY = Fin (0.15 * real H),
      faceWidth = Fin (min (0.4 * real W) (0.3 * real H)),
      faceHeight = Fin (1.2 * min (0.4 * real W) (0.3 * real H))\<rparr>"
  using assms by (intro estimateFace_portrait) simp_all

text \<open>The amended C2 at the source 800 x 1200: the rectangle is 320 x 384 at (240, 180).\<close>

theorem C2_portrait_band_witness:
  "(0::nat) < 800 \<and> (0::nat) < 1200 \<and> (0.6::real) < real (800::nat) / real (1200::nat) \<and>
   real (800::nat) / real (1200::nat) < (1.5::real) \<and>
   estimateFace (Fin (real (800::nat))) (Fin (real (1200::nat))) =
     \<lparr>faceX = Fin 240, faceY = Fin 180, faceWidth = Fin 320, faceHeight = Fin 384\<rparr>"
  using C2_portrait_band [of 800 1200] by simp

text \<open>
  C2 as stated fails at the ratio 0.6 itself. A source of 600 x 1000 has ratio 0.6,
  yet the test \<open>aspectRatio > 0.6\<close> sends it to the last branch: the width is
  \<open>min (0.6 W) (0.45 H) = 360\<close> and the rectangle is not the one of the claim.
\<close>

theorem C2_ratio_six_tenths_counterexample:
  "(0.6::real) \<le> 600 / 1000 \<and> (600::real) / 1000 < 1.5 \<and>
   faceWidth (estimateFace (Fin 600) (Fin 1000)) = Fin 360 \<and>
   estimateFace (Fin 600) (Fin 1000) \<noteq>
     \<lparr>faceX = Fin ((600 - min (0.4 * 600) (0.3 * 1000)) / 2), faceY = Fin (0.15 * 1000),
      faceWidth = Fin (min (0.4 * 600) (0.3 * 1000)),
      faceHeight = Fin (1.2 * min (0.4 * 600) (0.3 * 1000))\<rparr>"
  by (simp add: estimateFace_def Let_def)

text \<open>
  C4 on the code. A file that does not decode gives a broken image: it is
  \<open>complete\<close> and its natural width and height are zero, the degenerate
  dimensions of the claim. On it \<open>drawImage\<close> in line 92 throws, outside the
  \<open>try\<close> block, so the \<open>catch\<close> handler that holds the fallback
  \<open>zoom = 100\<close>, \<open>position = (0, 0)\<close> does not run: the handler leaves zoom
  and position as they were and \<open>isDetecting\<close> set. After an upload, the
  selection effect and the automatic detection, the zoom is the 200 that
  \<open>getOptimalZoom\<close> chose, not 100, and the editor still reports a detection in
  progress.
\<close>

theorem C4_broken_image_no_fallback:
  "detectFaceAndCrop paint
     \<lparr>imageRef = Some \<lparr>load_state = Broken, naturalWidth = 0, naturalHeight = 0,
                        image_data = []\<rparr>,
      canvasRef = Some \<lparr>canvas_width = cw, canvas_height = ch, context2d = True,
                         canvas_data = bits\<rparr>\<rparr> ed = ed\<lparr>isDetecting := True\<rparr> \<and>
   editorState (run paint toBlob
     [Upload [(''img-1'', ''a.png'', ''blob:a'')],
      RunEffect \<lparr>imageRef = Some \<lparr>load_state = Broken, naturalWidth = 0, naturalHeight = 0,
                                   image_data = []\<rparr>,
                 canvasRef = Some \<lparr>canvas_width = cw, canvas_height = ch, context2d = True,
                                    canvas_data = bits\<rparr>\<rparr>,
      AutoCrop \<lparr>imageRef = Some \<lparr>load_state = Broken, naturalWidth = 0, naturalHeight = 0,
                                  image_data = []\<rparr>,
                canvasRef = Some \<lparr>canvas_width = cw, canvas_height = ch, context2d = True,
                                   canvas_data = bits\<rparr>\<rparr>] initialApp) =
     initialEditor\<lparr>zoom := Fin 200, isDetecting := True\<rparr> \<and>
   zoom (initialEditor\<lparr>zoom := Fin 200, isDetecting := True\<rparr>) \<noteq> zoom fallbackViewport \<and>
   isDetecting (initialEditor\<lparr>zoom := Fin 200, isDetecting := True\<rparr>)"
  by (simp add: detectFaceAndCrop_def drawImage_def finiteArgs_def wholeImage_def
      initialApp_def initialEditor_def processedImages_def newImage_def selectedImage_def
      selectionEffect_def getOptimalZoom_def fallbackViewport_def jgt_def Math_min_def
      Math_max_def)

text \<open>
  C8. For every source of positive width \<open>W\<close> and height \<open>H\<close>, the viewport the
  estimator chooses displays the centre of the clamped candidate rectangle at the
  centre (150, 200) of the 300 x 400 frame: \<open>centre * (zoom / 100) + position\<close> is
  150 horizontally and 200 vertically.
\<close>

theorem C8_face_centre_maps_to_frame_centre:
  fixes W H :: nat
  assumes "0 < W" "0 < H"
  shows "toDisplay (zoom (detectFaceAndCrop_try (Fin (real W)) (Fin (real H))))
           (pos_x (position (detectFaceAndCrop_try (Fin (real W)) (Fin (real H)))))
           (pos_x (faceCentre (detectedFace (Fin (real W)) (Fin (real H))))) = Fin 150 \<and>
         toDisplay (zoom (detectFaceAndCrop_try (Fin (real W)) (Fin (real H))))
           (pos_y (position (detectFaceAndCrop_try (Fin (real W)) (Fin (real H)))))
           (pos_y (faceCentre (detectedFace (Fin (real W)) (Fin (real H))))) = Fin 200"
  by (rule detect_centres)

text \<open>C8 at the source 800 x 1200 of the scenario.\<close>

theorem C8_face_centre_maps_to_frame_centre_witness:
  "(0::nat) < 800 \<and> (0::nat) < 1200 \<and>
   toDisplay (zoom (detectFaceAndCrop_try (Fin (real (800::nat))) (Fin (real (1200::nat)))))
     (pos_x (position (detectFaceAndCrop_try (Fin (real (800::nat))) (Fin (real (1200::nat))))))
     (pos_x (faceCentre (detectedFace (Fin (real (800::nat))) (Fin (real (1200::nat)))))) = Fin 150 \<and>
   toDisplay (zoom (detectFaceAndCrop_try (Fin (real (800::nat))) (Fin (real (1200::nat)))))
     (pos_y (position (detectFaceAndCrop_try (Fin (real (800::nat))) (Fin (real (1200::nat))))))
     (pos_y (faceCentre (detectedFace (Fin (real (800::nat))) (Fin (real (1200::nat)))))) = Fin 200"
  using C8_face_centre_maps_to_frame_centre [of 800 1200] by simp

section \<open>The viewport mapping and its inverse\<close>

lemma toSource_toDisplay:
  "z \<noteq> 0 \<Longrightarrow> toSource_spec (Fin z) (Fin p) (toDisplay (Fin z) (Fin p) (Fin s)) = Fin s"
  by (simp add: toSource_spec_def toDisplay_def)

lemma toDisplay_toSource:
  "z \<noteq> 0 \<Longrightarrow> toDisplay (Fin z) (Fin p) (toSource_spec (Fin z) (Fin p) (Fin out)) = Fin out"
  by (simp add: toSource_spec_def toDisplay_def field_simps)

lemma visibleSource_toSource:
  "z \<noteq> 0 \<Longrightarrow> visibleSource (Fin z) \<lparr>pos_x = Fin px, pos_y = Fin py\<rparr> =
     \<lparr>sourceLeft = toSource_spec (Fin z) (Fin px) (Fin 0),
      sourceTop = toSource_spec (Fin z) (Fin py) (Fin 0),
      sourceRight = toSource_spec (Fin z) (Fin px) (Fin 300),
      sourceBottom = toSource_spec (Fin z) (Fin py) (Fin 400)\<rparr>"
  by (simp add: toSource_spec_def visibleSource_def Let_def)

text \<open>
  C7. For a zoom within 10 .. 200 and any finite pan, the forward mapping
  \<open>display = source * (zoom / 100) + pan\<close> and the inverse mapping
  \<open>source = (display - pan) / (zoom / 100)\<close> undo each other on both axes, in
  both orders, and the rectangle \<open>handleSave\<close> computes is the inverse image of the
  corners (0, 0) and (300, 400) of the frame. Arithmetic is exact here, which is what
  "within floating-point tolerance" abstracts from.
\<close>

theorem C7_forward_inverse_mapping:
  fixes z px py sx sy :: real
  assumes "10 \<le> z" "z \<le> 200"
  shows "toSource_spec (Fin z) (Fin px) (toDisplay (Fin z) (Fin px) (Fin sx)) = Fin sx \<and>
         toSource_spec (Fin z) (Fin py) (toDisplay (Fin z) (Fin py) (Fin sy)) = Fin sy \<and>
         toDisplay (Fin z) (Fin px) (toSource_spec (Fin z) (Fin px) (Fin sx)) = Fin sx \<and>
         toDisplay (Fin z) (Fin py) (toSource_spec (Fin z) (Fin py) (Fin sy)) = Fin sy \<and>
         visibleSource (Fin z) \<lparr>pos_x = Fin px, pos_y = Fin py\<rparr> =
           \<lparr>sourceLeft = toSource_spec (Fin z) (Fin px) (Fin 0),
            sourceTop = toSource_spec (Fin z) (Fin py) (Fin 0),
            sourceRight = toSource_spec (Fin z) (Fin px) (Fin 300),
            sourceBottom = toSource_spec (Fin z) (Fin py) (Fin 400)\<rparr>"
  using assms by (simp add: toSource_toDisplay toDisplay_toSource visibleSource_toSource)

text \<open>
  C7 at zoom 150 and pan (-40, 25): the source point (7, 3) is displayed at
  (-29.5, 29.5) and mapped back to (7, 3); the right edge of the visible source is
  at 680 / 3.
\<close>

theorem C7_forward_inverse_mapping_witness:
  "(10::real) \<le> 150 \<and> (150::real) \<le> 200 \<and>
   toDisplay (Fin 150) (Fin (- 40)) (Fin 7) = Fin (- 59 / 2) \<and>
   toDisplay (Fin 150) (Fin 25) (Fin 3) = Fin (59 / 2) \<and>
   toSource_spec (Fin 150) (Fin (- 40)) (toDisplay (Fin 150) (Fin (- 40)) (Fin 7)) = Fin 7 \<and>
   toSource_spec (Fin 150) (Fin 25) (toDisplay (Fin 150) (Fin 25) (Fin 3)) = Fin 3 \<and>
   sourceRight (visibleSource (Fin 150) \<lparr>pos_x = Fin (- 40), pos_y = Fin 25\<rparr>) = Fin (680 / 3)"
  using C7_forward_inverse_mapping [of 150 "- 40" 7 25 3]
  by (simp add: toDisplay_def toSource_spec_def)

section \<open>The greyscale filter\<close>

subsection \<open>Rounding to binary64\<close>

lemma roundHalfEven_near: "\<bar>real_of_int (roundHalfEven v) - v\<bar> \<le> 1 / 2"
  unfolding roundHalfEven_def Let_def by (auto simp: abs_if) linarith+

lemma roundHalfEven_nonneg: "0 \<le> v \<Longrightarrow> 0 \<le> roundHalfEven v"
  unfolding roundHalfEven_def Let_def by auto

lemma exponent_le:
  assumes "0 < x"
  shows "2 powi (exponent x) \<le> x"
proof (cases "1 \<le> x")
  case True
  then have n: "0 < \<lfloor>x\<rfloor>" by simp
  from bitlen_bounds [OF n] have "2 ^ nat (bitlen \<lfloor>x\<rfloor> - 1) \<le> \<lfloor>x\<rfloor>" by simp
  then have "(2::real) ^ nat (bitlen \<lfloor>x\<rfloor> - 1) \<le> real_of_int \<lfloor>x\<rfloor>"
    by (metis of_int_le_iff of_int_numeral of_int_power)
  also have "\<dots> \<le> x" by simp
  finally have "(2::real) ^ nat (bitlen \<lfloor>x\<rfloor> - 1) \<le> x" .
  moreover have "1 \<le> bitlen \<lfloor>x\<rfloor>" using n by (simp add: bitlen_alt_def)
  ultimately show ?thesis using True by (simp add: exponent_def power_int_def)
next
  case False
  with assms have x: "x < 1" "0 < x" by simp_all
  then have "1 < 1 / x" by simp
  then have m: "0 < \<lceil>1 / x\<rceil> - 1" by linarith
  let ?m = "\<lceil>1 / x\<rceil> - 1"
  from bitlen_bounds [OF m] have "?m < 2 ^ nat (bitlen ?m)" by simp
  then have "\<lceil>1 / x\<rceil> \<le> 2 ^ nat (bitlen ?m)" by simp
  then have "real_of_int \<lceil>1 / x\<rceil> \<le> 2 ^ nat (bitlen ?m)"
    by (metis of_int_le_iff of_int_numeral of_int_power)
  moreover have "1 / x \<le> real_of_int \<lceil>1 / x\<rceil>" by simp
  ultimately have "1 / x \<le> 2 ^ nat (bitlen ?m)" by linarith
  then have "1 / 2 ^ nat (bitlen ?m) \<le> x"
    using x(2) by (simp add: field_simps)
  moreover have "(2::real) powi (- bitlen ?m) = 1 / 2 ^ nat (bitlen ?m)"
    using bitlen_nonneg [of ?m] by (simp add: power_int_minus_divide power_int_def power_one_over)
  ultimately show ?thesis
    using False by (simp add: exponent_def)
qed

text \<open>The rounding error of a positive number is at most half a unit in the last place.\<close>

lemma rounded_near:
  assumes "0 < x"
  defines "q \<equiv> 2 powi (max (exponent \<bar>x\<bar>) (- 1022) - 52)"
  shows "\<bar>q * real_of_int (roundHalfEven (x / q)) - x\<bar> \<le> max (x / 2 ^ 53) (2 powi (- 1075)) \<and>
         0 \<le> q * real_of_int (roundHalfEven (x / q))"
proof -
  have q: "0 < q" by (simp add: q_def)
  have "q * real_of_int (roundHalfEven (x / q)) - x = q * (real_of_int (roundHalfEven (x / q)) - x / q)"
    using q by (simp add: algebra_simps)
  then have "\<bar>q * real_of_int (roundHalfEven (x / q)) - x\<bar> = q * \<bar>real_of_int (roundHalfEven (x / q)) - x / q\<bar>"
    using q by (simp only: abs_mult)
  also have "\<dots> \<le> q * (1 / 2)"
    using q roundHalfEven_near [of "x / q"] by (intro mult_left_mono) simp_all
  finally have e: "\<bar>q * real_of_int (roundHalfEven (x / q)) - x\<bar> \<le> q / 2" by simp
  have "q / 2 \<le> max (x / 2 ^ 53) (2 powi (- 1075))"
  proof (cases "- 1022 \<le> exponent \<bar>x\<bar>")
    case True
    then have "q = 2 powi (exponent x) / 2 ^ 52"
      using assms(1) by (simp add: q_def max_def power_int_diff)
    with exponent_le [OF assms(1)] have "q \<le> x / 2 ^ 52" by (simp add: divide_right_mono)
    then show ?thesis by (simp add: max_def)
  next
    case False
    then have "q = 2 powi (- 1074)" by (simp add: q_def max_def)
    moreover have "(2::real) powi (- 1074) / 2 = 2 powi (- 1075)"
      using power_int_diff [of "2::real" "- 1074" 1] by simp
    ultimately show ?thesis by (simp add: max_def)
  qed
  with e have "\<bar>q * real_of_int (roundHalfEven (x / q)) - x\<bar> \<le> max (x / 2 ^ 53) (2 powi (- 1075))"
    by linarith
  moreover have "0 \<le> q * real_of_int (roundHalfEven (x / q))"
    using q assms(1) roundHalfEven_nonneg [of "x / q"] by simp
  ultimately show ?thesis by simp
qed

lemma subnormal_small: "(2::real) powi (- 1075) \<le> 1 / 2 ^ 44"
proof -
  have "(2::real) powi (- 1075) \<le> 2 powi (- 44)"
    by (rule power_int_increasing) simp_all
  then show ?thesis by (simp add: power_int_minus_divide)
qed

lemma no_overflow: "(r::real) \<le> 1024 \<Longrightarrow> r < 2 powi 1024"
proof -
  assume "r \<le> 1024"
  have "(2::real) powi 11 \<le> 2 powi 1024"
    by (rule power_int_increasing) simp_all
  moreover have "(2::real) powi 11 = 2048" by (simp add: power_int_def)
  ultimately show ?thesis using \<open>r \<le> 1024\<close> by linarith
qed

text \<open>
  In the range of the filter, 0 to 512, rounding to binary64 gives a finite number
  that is not negative and differs from the exact one by at most \<open>2 ^ -44\<close>.
\<close>

lemma binary64_small:
  assumes "0 \<le> x" "x \<le> 512"
  obtains r where "binary64 x = Fin r" "0 \<le> r" "\<bar>r - x\<bar> \<le> 1 / 2 ^ 44"
proof (cases "x = 0")
  case True
  with that [of 0] show thesis by (simp add: binary64_def)
next
  case False
  with assms have pos: "0 < x" by simp
  define q :: real where "q = 2 powi (max (exponent \<bar>x\<bar>) (- 1022) - 52)"
  define r where "r = q * real_of_int (roundHalfEven (x / q))"
  from rounded_near [OF pos]
  have n: "\<bar>r - x\<bar> \<le> max (x / 2 ^ 53) (2 powi (- 1075))" and r0: "0 \<le> r"
    by (simp_all add: r_def q_def)
  have "x / 2 ^ 53 \<le> 512 / 2 ^ 53" using assms(2) by (simp add: divide_right_mono)
  also have "(512::real) / 2 ^ 53 = 1 / 2 ^ 44" by simp
  finally have e: "\<bar>r - x\<bar> \<le> 1 / 2 ^ 44" using n subnormal_small by (simp add: max_def split: if_splits)
  then have "r \<le> 1024" using assms(2) by (simp add: abs_if split: if_splits)
  from no_overflow [OF this] r0 have "\<not> 2 powi 1024 \<le> \<bar>r\<bar>" by simp
  then have "binary64 x = Fin r"
    using False by (simp add: binary64_def Let_def r_def q_def)
  with r0 e that show thesis by blast
qed

lemma jadd_NaN [simp]: "jadd a NaN = NaN"
  by (cases a) simp_all

lemma grey_of_NaN [simp]: "grey_of r g NaN = NaN" "grey_of r NaN b = NaN"
  by (simp_all add: grey_of_def add64_def mul64_def round64_def)

text \<open>
  On three channels between 0 and 255 the filter computes a finite number that is
  not negative and within \<open>2 ^ -30\<close> of the exact weighted sum.
\<close>

lemma grey_of_near:
  fixes R G B :: real
  assumes "0 \<le> R" "R \<le> 255" "0 \<le> G" "G \<le> 255" "0 \<le> B" "B \<le> 255"
  obtains v where "grey_of (Fin R) (Fin G) (Fin B) = Fin v" "0 \<le> v"
    "\<bar>v - (0.299 * R + 0.587 * G + 0.114 * B)\<bar> \<le> 1 / 2 ^ 30"
proof -
  define e :: real where "e = 1 / 2 ^ 44"
  have e: "0 < e" "256 * e * 3 + 2 * e \<le> 1 / 2 ^ 30" by (simp_all add: e_def)
  obtain c1 where c1: "binary64 0.299 = Fin c1" "0 \<le> c1" "\<bar>c1 - 0.299\<bar> \<le> e"
    unfolding e_def by (rule binary64_small [of "0.299"]) simp_all
  obtain c2 where c2: "binary64 0.587 = Fin c2" "0 \<le> c2" "\<bar>c2 - 0.587\<bar> \<le> e"
    unfolding e_def by (rule binary64_small [of "0.587"]) simp_all
  obtain c3 where c3: "binary64 0.114 = Fin c3" "0 \<le> c3" "\<bar>c3 - 0.114\<bar> \<le> e"
    unfolding e_def by (rule binary64_small [of "0.114"]) simp_all
  have prod: "0 \<le> x * c \<and> x * c \<le> 256 \<and> \<bar>x * c - w * x\<bar> \<le> 255 * e"
    if "0 \<le> x" "x \<le> 255" "0 \<le> c" "\<bar>c - w\<bar> \<le> e" "w \<le> 1" for x c w :: real
  proof -
    have "x * c - w * x = x * (c - w)" by (simp add: algebra_simps)
    then have "\<bar>x * c - w * x\<bar> = x * \<bar>c - w\<bar>" using that(1) by (simp add: abs_mult)
    also have "\<dots> \<le> 255 * e"
      using that(1,2,4) by (intro mult_mono) simp_all
    finally have d: "\<bar>x * c - w * x\<bar> \<le> 255 * e" .
    have wx: "w * x \<le> 1 * 255" using that(1,2,5) by (intro mult_mono) simp_all
    have e1: "255 * e \<le> 1" by (simp add: e_def)
    have "x * c \<le> 256" using d wx e1 by linarith
    moreover have "0 \<le> x * c" using that(1,3) by simp
    ultimately show ?thesis using d by simp
  qed
  have p1: "0 \<le> R * c1 \<and> R * c1 \<le> 256 \<and> \<bar>R * c1 - 0.299 * R\<bar> \<le> 255 * e"
    by (rule prod [OF assms(1,2) c1(2,3)]) simp
  have p2: "0 \<le> G * c2 \<and> G * c2 \<le> 256 \<and> \<bar>G * c2 - 0.587 * G\<bar> \<le> 255 * e"
    by (rule prod [OF assms(3,4) c2(2,3)]) simp
  have p3: "0 \<le> B * c3 \<and> B * c3 \<le> 256 \<and> \<bar>B * c3 - 0.114 * B\<bar> \<le> 255 * e"
    by (rule prod [OF assms(5,6) c3(2,3)]) simp
  obtain m1 where m1: "binary64 (R * c1) = Fin m1" "0 \<le> m1" "\<bar>m1 - R * c1\<bar> \<le> e"
    unfolding e_def by (rule binary64_small [of "R * c1"]) (use p1 in simp_all)
  obtain m2 where m2: "binary64 (G * c2) = Fin m2" "0 \<le> m2" "\<bar>m2 - G * c2\<bar> \<le> e"
    unfolding e_def by (rule binary64_small [of "G * c2"]) (use p2 in simp_all)
  obtain m3 where m3: "binary64 (B * c3) = Fin m3" "0 \<le> m3" "\<bar>m3 - B * c3\<bar> \<le> e"
    unfolding e_def by (rule binary64_small [of "B * c3"]) (use p3 in simp_all)
  have d1: "\<bar>m1 - 0.299 * R\<bar> \<le> 256 * e" using m1(3) p1 by linarith
  have d2: "\<bar>m2 - 0.587 * G\<bar> \<le> 256 * e" using m2(3) p2 by linarith
  have d3: "\<bar>m3 - 0.114 * B\<bar> \<le> 256 * e" using m3(3) p3 by linarith
  have b1: "0.299 * R \<le> 80" using assms(2) by simp
  have b2: "0.587 * G \<le> 150" using assms(4) by simp
  have b3: "0.114 * B \<le> 30" using assms(6) by simp
  have esmall: "e \<le> 1 / 1000" by (simp add: e_def)
  have s1r: "0 \<le> m1 + m2" "m1 + m2 \<le> 512"
    using m1(2) m2(2) d1 d2 b1 b2 esmall by linarith+
  obtain s1 where s1: "binary64 (m1 + m2) = Fin s1" "0 \<le> s1" "\<bar>s1 - (m1 + m2)\<bar> \<le> e"
    unfolding e_def by (rule binary64_small [of "m1 + m2"]) (use s1r in simp_all)
  have s2r: "0 \<le> s1 + m3" "s1 + m3 \<le> 512"
    using s1(2,3) m3(2) d1 d2 d3 b1 b2 b3 esmall by linarith+
  obtain s2 where s2: "binary64 (s1 + m3) = Fin s2" "0 \<le> s2" "\<bar>s2 - (s1 + m3)\<bar> \<le> e"
    unfolding e_def by (rule binary64_small [of "s1 + m3"]) (use s2r in simp_all)
  have g: "grey_of (Fin R) (Fin G) (Fin B) = Fin s2"
    unfolding grey_of_def mul64_def c1(1) c2(1) c3(1) jmul.simps round64_def jsnum.case
      m1(1) m2(1) m3(1) add64_def jadd.simps s1(1) s2(1) by (rule refl)
  have "\<bar>s2 - (0.299 * R + 0.587 * G + 0.114 * B)\<bar> \<le> 256 * e * 3 + 2 * e"
    using d1 d2 d3 s1(3) s2(3) by linarith
  with e(2) have "\<bar>s2 - (0.299 * R + 0.587 * G + 0.114 * B)\<bar> \<le> 1 / 2 ^ 30" by linarith
  with g s2(2) that show thesis by blast
qed

subsection \<open>Writing a byte\<close>

lemma unat_byte_le: "unat (g::byte) \<le> 255"
  using unsigned_less [of g, where ?'a = nat] by simp

text \<open>A number nearer than one half to an integer from 0 to 255 is written as that integer.\<close>

lemma ToUint8Clamp_close:
  assumes "\<bar>r - real n\<bar> < 1 / 2" "n \<le> 255"
  shows "ToUint8Clamp (Fin r) = of_nat n"
proof -
  consider "r \<le> 0" | "255 \<le> r" | "0 < r" "r < 255" "real n \<le> r" | "0 < r" "r < 255" "r < real n"
    by linarith
  then show ?thesis
  proof cases
    case 1
    with assms(1) have "n = 0" by linarith
    with 1 show ?thesis by simp
  next
    case 2
    with assms have "n = 255" by linarith
    with 2 show ?thesis by simp
  next
    case 3
    have "\<lfloor>r\<rfloor> = int n" using 3(3) assms(1) by (simp add: floor_eq_iff; linarith?)
    moreover have "r < real n + 1 / 2" using assms(1) by linarith
    ultimately show ?thesis using 3(1,2) by (simp add: Let_def)
  next
    case 4
    have n: "0 < n" using 4(1,3) assms(1) by linarith
    have f: "\<lfloor>r\<rfloor> = int n - 1" using 4(3) assms(1) by (simp add: floor_eq_iff; linarith?)
    have "real_of_int (int n - 1) + 1 / 2 < r" using assms(1) 4(3) by (simp; linarith?)
    then show ?thesis using 4(1,2) f by (simp add: Let_def)
  qed
qed


lemma real_unat_byte: "0 \<le> real (unat (g::byte))" "real (unat g) \<le> 255"
proof -
  show "0 \<le> real (unat g)" by (rule of_nat_0_le_iff)
  have "real (unat g) \<le> real 255" using unat_byte_le [of g] by (simp only: of_nat_le_iff)
  then show "real (unat g) \<le> 255" by simp
qed

text \<open>A pixel that is already grey keeps its value: the weights add up to one.\<close>

lemma grey_of_byte:
  "ToUint8Clamp (grey_of (Fin (real (unat (g::byte)))) (Fin (real (unat g))) (Fin (real (unat g)))) = g"
proof -
  let ?g = "real (unat g)"
  note r = real_unat_byte [of g]
  obtain v where v: "grey_of (Fin ?g) (Fin ?g) (Fin ?g) = Fin v"
    "\<bar>v - (0.299 * ?g + 0.587 * ?g + 0.114 * ?g)\<bar> \<le> 1 / 2 ^ 30"
    by (rule grey_of_near [OF r r r])
  have "0.299 * ?g + 0.587 * ?g + 0.114 * ?g = ?g" by (simp add: algebra_simps)
  with v(2) have "\<bar>v - ?g\<bar> \<le> 1 / 2 ^ 30" by simp
  moreover have "(1::real) / 2 ^ 30 < 1 / 2" by simp
  ultimately have "\<bar>v - ?g\<bar> < 1 / 2" by linarith
  from ToUint8Clamp_close [OF this unat_byte_le] have "ToUint8Clamp (Fin v) = of_nat (unat g)" .
  also have "\<dots> = g" by simp
  finally show ?thesis unfolding v(1) .
qed

lemma grey_of_unsigned [simp]:
  "ToUint8Clamp (grey_of (Fin (unsigned (g::byte))) (Fin (unsigned g)) (Fin (unsigned g))) = g"
  using grey_of_byte [of g] by simp


subsection \<open>The loop\<close>

text \<open>The loop from index \<open>i\<close> on leaves the first \<open>i\<close> bytes and filters the rest.\<close>

lemma greyscaleLoop_append:
  "length pre = i \<Longrightarrow> greyscaleLoop i (pre @ xs) = pre @ greyPixels xs"
proof (induction xs arbitrary: pre i rule: greyPixels.induct)
  case (1 r g b a rest)
  let ?v = "ToUint8Clamp (grey_of (Fin (real (unat r))) (Fin (real (unat g))) (Fin (real (unat b))))"
  have "greyscaleLoop i (pre @ r # g # b # a # rest) =
        greyscaleLoop (i + 4) ((pre @ [?v, ?v, ?v, a]) @ rest)"
    using "1.prems"
    by (subst greyscaleLoop.simps)
      (simp add: elem_def nth_append list_update_append Let_def del: ToUint8Clamp.simps)
  also have "\<dots> = (pre @ [?v, ?v, ?v, a]) @ greyPixels rest"
    using "1.prems" by (intro "1.IH") simp_all
  finally show ?case by (simp add: Let_def del: ToUint8Clamp.simps)
next
  case (2 r g b)
  have "greyscaleLoop i (pre @ [r, g, b]) = greyscaleLoop (i + 4) (pre @ greyPixels [r, g, b])"
    using 2
    by (subst greyscaleLoop.simps)
      (simp add: elem_def nth_append list_update_append Let_def del: ToUint8Clamp.simps)
  also have "\<dots> = pre @ greyPixels [r, g, b]"
    using 2 by (subst greyscaleLoop.simps) (simp add: Let_def del: ToUint8Clamp.simps)
  finally show ?case .
next
  case (3 r g)
  have "greyscaleLoop i (pre @ [r, g]) = greyscaleLoop (i + 4) (pre @ greyPixels [r, g])"
    using 3
    by (subst greyscaleLoop.simps)
      (simp add: elem_def nth_append list_update_append Let_def)
  also have "\<dots> = pre @ greyPixels [r, g]"
    using 3 by (subst greyscaleLoop.simps) simp
  finally show ?case .
next
  case (4 r)
  have "greyscaleLoop i (pre @ [r]) = greyscaleLoop (i + 4) (pre @ greyPixels [r])"
    using 4
    by (subst greyscaleLoop.simps)
      (simp add: elem_def nth_append list_update_append Let_def)
  also have "\<dots> = pre @ greyPixels [r]"
    using 4 by (subst greyscaleLoop.simps) simp
  finally show ?case .
next
  case 5
  then show ?case by (subst greyscaleLoop.simps) simp
qed

lemma greyscale_greyPixels: "greyscale data = greyPixels data"
  using greyscaleLoop_append [of "[]" 0 data] by (simp add: greyscale_def)


lemma length_greyPixels [simp]: "length (greyPixels xs) = length xs"
  by (induction xs rule: greyPixels.induct) (simp_all add: Let_def del: ToUint8Clamp.simps)



lemma greyPixels_white: "greyPixels (replicate (4 * n) 255) = replicate (4 * n) 255"
proof (induction n)
  case 0
  then show ?case by simp
next
  case (Suc n)
  have "replicate (4 * Suc n) (255::byte) = 255 # 255 # 255 # 255 # replicate (4 * n) 255"
    by (simp add: numeral_eq_Suc)
  moreover have "ToUint8Clamp (grey_of (Fin (real (unat (255::byte))))
                   (Fin (real (unat (255::byte)))) (Fin (real (unat (255::byte))))) = 255"
    by (rule grey_of_byte)
  ultimately show ?case
    using Suc by (simp add: Let_def del: ToUint8Clamp.simps of_nat_unat)
qed




section \<open>The rasteriser\<close>

lemma cropArgs_Fin:
  assumes "z \<noteq> 0"
  shows "cropArgs img (Fin z) \<lparr>pos_x = Fin px, pos_y = Fin py\<rparr> =
    \<lparr>arg_sx = Fin (max 0 (- px / (z / 100))),
     arg_sy = Fin (max 0 (- py / (z / 100))),
     arg_sw = Fin (min (real (naturalWidth img)) ((- px + 300) / (z / 100)) -
                   max 0 (- px / (z / 100))),
     arg_sh = Fin (min (real (naturalHeight img)) ((- py + 400) / (z / 100)) -
                   max 0 (- py / (z / 100))),
     arg_dx = Fin ((max 0 (- px / (z / 100)) - (- px / (z / 100))) * (z / 100)),
     arg_dy = Fin ((max 0 (- py / (z / 100)) - (- py / (z / 100))) * (z / 100)),
     arg_dw = Fin ((min (real (naturalWidth img)) ((- px + 300) / (z / 100)) -
                    max 0 (- px / (z / 100))) * (z / 100)),
     arg_dh = Fin ((min (real (naturalHeight img)) ((- py + 400) / (z / 100)) -
                    max 0 (- py / (z / 100))) * (z / 100))\<rparr>"
  using assms by (simp add: cropArgs_def visibleSource_def Let_def)

text \<open>
  A clamped extent that is zero or negative leaves nothing of the source rectangle
  inside the image: the rectangle then lies left of 0 or right of \<open>W\<close>.
\<close>

lemma outside_x:
  fixes sL sR W :: real
  assumes "sL < sR" "0 \<le> W" "min W sR - max 0 sL \<le> 0"
  shows "\<not> max 0 (min (max 0 sL) (max 0 sL + (min W sR - max 0 sL)))
          < min W (max (max 0 sL) (max 0 sL + (min W sR - max 0 sL)))"
  using assms by (auto simp: min_def max_def)

lemma clippedSourceEmpty_Fin:
  "clippedSourceEmpty img
     \<lparr>arg_sx = Fin sx, arg_sy = Fin sy, arg_sw = Fin sw, arg_sh = Fin sh,
      arg_dx = dx, arg_dy = dy, arg_dw = dw, arg_dh = dh\<rparr> \<longleftrightarrow>
   \<not> (max 0 (min sx (sx + sw)) < min (real (naturalWidth img)) (max sx (sx + sw)) \<and>
      max 0 (min sy (sy + sh)) < min (real (naturalHeight img)) (max sy (sy + sh)))"
  by (auto simp add: clippedSourceEmpty_def Let_def)

text \<open>On an image that is not broken, such a call of \<open>drawImage\<close> paints nothing.\<close>

lemma drawImage_outside:
  fixes sL sR sT sB :: real
  assumes "sL < sR" "sT < sB"
    and "min (real (naturalWidth img)) sR - max 0 sL \<le> 0 \<or>
         min (real (naturalHeight img)) sB - max 0 sT \<le> 0"
    and "load_state img \<noteq> Broken"
  shows "drawImage paint img
     \<lparr>arg_sx = Fin (max 0 sL), arg_sy = Fin (max 0 sT),
      arg_sw = Fin (min (real (naturalWidth img)) sR - max 0 sL),
      arg_sh = Fin (min (real (naturalHeight img)) sB - max 0 sT),
      arg_dx = dx, arg_dy = dy, arg_dw = dw, arg_dh = dh\<rparr> cv = Inr cv"
proof -
  have "clippedSourceEmpty img
     \<lparr>arg_sx = Fin (max 0 sL), arg_sy = Fin (max 0 sT),
      arg_sw = Fin (min (real (naturalWidth img)) sR - max 0 sL),
      arg_sh = Fin (min (real (naturalHeight img)) sB - max 0 sT),
      arg_dx = dx, arg_dy = dy, arg_dw = dw, arg_dh = dh\<rparr>"
    unfolding clippedSourceEmpty_Fin
    using assms(3) outside_x [OF assms(1) of_nat_0_le_iff, of "naturalWidth img"]
      outside_x [OF assms(2) of_nat_0_le_iff, of "naturalHeight img"]
    by blast
  then show ?thesis using assms(4) by (simp add: drawImage_def)
qed

lemma drawImage_empty_crop:
  fixes z px py :: real
  assumes z: "0 < z"
    and e: "jge (Fin 0) (arg_sw (cropArgs img (Fin z) \<lparr>pos_x = Fin px, pos_y = Fin py\<rparr>)) \<or>
            jge (Fin 0) (arg_sh (cropArgs img (Fin z) \<lparr>pos_x = Fin px, pos_y = Fin py\<rparr>))"
    and nb: "load_state img \<noteq> Broken"
  shows "drawImage paint img (cropArgs img (Fin z) \<lparr>pos_x = Fin px, pos_y = Fin py\<rparr>) cv =
         Inr cv"
proof -
  have zf: "0 < z / 100" using z by simp
  have nz: "z \<noteq> 0" using z by simp
  have x: "- px / (z / 100) < (- px + 300) / (z / 100)"
    by (rule divide_strict_right_mono [OF _ zf]) simp
  have y: "- py / (z / 100) < (- py + 400) / (z / 100)"
    by (rule divide_strict_right_mono [OF _ zf]) simp
  from e have
    "min (real (naturalWidth img)) ((- px + 300) / (z / 100)) - max 0 (- px / (z / 100)) \<le> 0 \<or>
     min (real (naturalHeight img)) ((- py + 400) / (z / 100)) - max 0 (- py / (z / 100)) \<le> 0"
    unfolding cropArgs_Fin [OF nz] by simp
  from drawImage_outside [OF x y this nb] show ?thesis
    unfolding cropArgs_Fin [OF nz] .
qed

lemma white_nth: "j < 4 \<Longrightarrow> white ! j = 255"
proof -
  assume "j < 4"
  then consider "j = 0" | "j = 1" | "j = 2" | "j = 3" by linarith
  then show ?thesis by cases (simp_all add: white_def)
qed

lemma fillRect_white_all:
  "canvas_data (fillRect white 0 0 300 400 (set_size 300 400 cv)) = replicate (4 * 300 * 400) 255"
proof (rule nth_equalityI)
  show "length (canvas_data (fillRect white 0 0 300 400 (set_size 300 400 cv))) =
        length (replicate (4 * 300 * 400) (255::byte))"
    by (simp add: fillRect_def set_size_def)
next
  fix i assume "i < length (canvas_data (fillRect white 0 0 300 400 (set_size 300 400 cv)))"
  then have i: "i < 480000" by (simp add: fillRect_def set_size_def)
  then have row: "i div 4 div 300 < 400" by (simp add: div_less_iff_less_mult)
  have col: "i div 4 mod 300 < 300" by simp
  have "canvas_data (fillRect white 0 0 300 400 (set_size 300 400 cv)) ! i = white ! (i mod 4)"
    using i row col by (simp add: fillRect_def set_size_def Let_def)
  also have "\<dots> = 255" by (rule white_nth) simp
  finally show "canvas_data (fillRect white 0 0 300 400 (set_size 300 400 cv)) ! i =
                replicate (4 * 300 * 400) 255 ! i"
    using i by simp
qed

text \<open>
  \<open>drawImage\<close> throws on a broken image only, and only once its arguments are
  known to be finite; when it returns, the bitmap has the size it had.
\<close>

lemma drawImage_Inr:
  "load_state img \<noteq> Broken \<Longrightarrow> \<exists>out. drawImage paint img a cv = Inr out"
  by (simp add: drawImage_def)

lemma drawImage_Broken:
  "load_state img = Broken \<Longrightarrow> finiteArgs a \<Longrightarrow>
     drawImage paint img a cv = Inl InvalidStateError"
  by (simp add: drawImage_def)

lemma drawImage_size:
  "drawImage paint img a cv = Inr out \<Longrightarrow>
     canvas_width out = canvas_width cv \<and> canvas_height out = canvas_height cv \<and>
     length (canvas_data out) = length (canvas_data cv)"
  by (auto simp add: drawImage_def split: if_splits)

lemma renderCrop_Inr:
  assumes "load_state img \<noteq> Broken"
  shows "\<exists>out. renderCrop paint img cv zm pos grey = Inr out"
proof -
  from drawImage_Inr [OF assms]
  obtain c where "drawImage paint img (cropArgs img zm pos)
      (fillRect white 0 0 300 400 (set_size 300 400 (set_size 300 (canvas_height cv) cv))) =
      Inr c"
    by blast
  then show ?thesis by (simp add: renderCrop_def Let_def)
qed

lemma renderCrop_size:
  assumes "renderCrop paint img cv zm pos grey = Inr out"
  shows "canvas_width out = 300 \<and> canvas_height out = 400 \<and>
         length (canvas_data out) = 4 * 300 * 400"
proof -
  let ?c3 = "fillRect white 0 0 300 400 (set_size 300 400 (set_size 300 (canvas_height cv) cv))"
  from assms obtain c4 where d: "drawImage paint img (cropArgs img zm pos) ?c3 = Inr c4"
    and out: "out = (if grey then c4\<lparr>canvas_data := greyscale (canvas_data c4)\<rparr> else c4)"
    by (auto simp add: renderCrop_def Let_def split: sum.splits)
  have "canvas_width ?c3 = 300 \<and> canvas_height ?c3 = 400 \<and>
        length (canvas_data ?c3) = 4 * 300 * 400"
    by (simp add: fillRect_def set_size_def)
  with drawImage_size [OF d] show ?thesis
    unfolding out by (simp add: greyscale_greyPixels)
qed

lemma renderCrop_white:
  fixes z px py :: real
  assumes "0 < z"
    and "jge (Fin 0) (arg_sw (cropArgs img (Fin z) \<lparr>pos_x = Fin px, pos_y = Fin py\<rparr>)) \<or>
         jge (Fin 0) (arg_sh (cropArgs img (Fin z) \<lparr>pos_x = Fin px, pos_y = Fin py\<rparr>))"
    and "load_state img \<noteq> Broken"
    and r: "renderCrop paint img cv (Fin z) \<lparr>pos_x = Fin px, pos_y = Fin py\<rparr> grey = Inr out"
  shows "canvas_data out = replicate (4 * 300 * 400) 255"
proof -
  have w: "canvas_data (fillRect white 0 0 300 400
             (set_size 300 400 (set_size 300 (canvas_height cv) cv))) =
           replicate (4 * 300 * 400) 255"
    by (rule fillRect_white_all)
  have g: "greyscale (replicate (4 * 300 * 400) 255) = replicate (4 * 300 * 400) 255"
    using greyPixels_white [of "300 * 400"] by (simp add: greyscale_greyPixels)
  from r [unfolded renderCrop_def Let_def drawImage_empty_crop [OF assms(1-3)]]
  show ?thesis
    using w g by (cases grey) auto
qed

text \<open>
  With the refs and an image selected, \<open>handleSave\<close> reaches \<open>toBlob\<close> unless
  the image is broken; on a broken image, with a zoom that is not zero and a finite
  pan, it stops at \<open>drawImage\<close>.
\<close>

lemma handleSave_Some:
  assumes "i \<noteq> []" "context2d cv" "load_state img \<noteq> Broken"
  shows "handleSave paint (Some i) \<lparr>imageRef = Some img, canvasRef = Some cv\<rparr> ed =
         Some (projr (renderCrop paint img cv (zoom ed) (position ed) (isGreyscale ed)))"
proof -
  from renderCrop_Inr [OF assms(3)]
  obtain out where "renderCrop paint img cv (zoom ed) (position ed) (isGreyscale ed) = Inr out"
    by blast
  then show ?thesis using assms(1,2) by (simp add: handleSave_def)
qed

lemma handleSave_Broken:
  fixes z px py :: real
  assumes "i \<noteq> []" "context2d cv" "load_state img = Broken"
    and "zoom ed = Fin z" "z \<noteq> 0" "position ed = \<lparr>pos_x = Fin px, pos_y = Fin py\<rparr>"
  shows "handleSave paint (Some i) \<lparr>imageRef = Some img, canvasRef = Some cv\<rparr> ed = None"
proof -
  have "finiteArgs (cropArgs img (Fin z) \<lparr>pos_x = Fin px, pos_y = Fin py\<rparr>)"
    unfolding cropArgs_Fin [OF assms(5)] by (simp add: finiteArgs_def)
  from drawImage_Broken [OF assms(3) this]
  show ?thesis
    using assms(1,2,4,6) by (simp add: handleSave_def renderCrop_def Let_def)
qed

text \<open>
  C1. With an image selected and the image element, the canvas and its context
  present, for an image that is not broken (one that is still loading counts), a
  zoom within 10 .. 200 and any finite pan, \<open>handleSave\<close> hands on to
  \<open>toBlob\<close> a canvas of exactly 300 x 400 pixels (4 * 300 * 400 bytes). When the clamped
  source rectangle has a zero or negative area, or a zero or negative width or
  height, every byte of that canvas is 255: every pixel is opaque white, with the
  greyscale filter on as well as off.
\<close>

theorem C1_commit_is_300_by_400_and_white_when_off_image:
  fixes z px py :: real
  assumes sel: "selId = Some i" "i \<noteq> []"
    and refs: "imageRef d = Some img" "canvasRef d = Some cv" "context2d cv"
    and nb: "load_state img \<noteq> Broken"
    and vp: "zoom ed = Fin z" "10 \<le> z" "z \<le> 200"
      "position ed = \<lparr>pos_x = Fin px, pos_y = Fin py\<rparr>"
  shows "\<exists>out. handleSave paint selId d ed = Some out \<and>
           canvas_width out = 300 \<and> canvas_height out = 400 \<and>
           length (canvas_data out) = 4 * 300 * 400 \<and>
           (jge (Fin 0) (clampedSourceArea img (zoom ed) (position ed)) \<or>
            jge (Fin 0) (arg_sw (cropArgs img (zoom ed) (position ed))) \<or>
            jge (Fin 0) (arg_sh (cropArgs img (zoom ed) (position ed)))
            \<longrightarrow> canvas_data out = replicate (4 * 300 * 400) 255)"
proof -
  have z: "0 < z" "z \<noteq> 0" using vp(2) by simp_all
  from renderCrop_Inr [OF nb]
  obtain out where o: "renderCrop paint img cv (zoom ed) (position ed) (isGreyscale ed) = Inr out"
    by blast
  have s: "handleSave paint selId d ed = Some out"
    using sel refs o by (simp add: handleSave_def)
  have area: "jge (Fin 0) (arg_sw (cropArgs img (Fin z) \<lparr>pos_x = Fin px, pos_y = Fin py\<rparr>)) \<or>
              jge (Fin 0) (arg_sh (cropArgs img (Fin z) \<lparr>pos_x = Fin px, pos_y = Fin py\<rparr>))"
    if "jge (Fin 0) (clampedSourceArea img (Fin z) \<lparr>pos_x = Fin px, pos_y = Fin py\<rparr>)"
    using that unfolding clampedSourceArea_def cropArgs_Fin [OF z(2)]
    by (simp add: mult_le_0_iff) linarith
  have "canvas_data out = replicate (4 * 300 * 400) 255"
    if "jge (Fin 0) (clampedSourceArea img (zoom ed) (position ed)) \<or>
        jge (Fin 0) (arg_sw (cropArgs img (zoom ed) (position ed))) \<or>
        jge (Fin 0) (arg_sh (cropArgs img (zoom ed) (position ed)))"
    using that area
      renderCrop_white [OF z(1) _ nb, of px py paint cv "isGreyscale ed" out] o
    unfolding vp(1) vp(4) by blast
  with s renderCrop_size [OF o]
  show ?thesis by blast
qed

text \<open>
  C1 in the scenario of the specification: a source of 1000 x 1000, zoom 100, pan
  (-2000, 0), greyscale on. The clamped source rectangle is -1000 wide and 400
  high, and the canvas that is encoded is 300 x 400 and white all over.
\<close>

theorem C1_commit_is_300_by_400_and_white_when_off_image_witness:
  "arg_sw (cropArgs
       \<lparr>load_state = Loaded, naturalWidth = 1000, naturalHeight = 1000, image_data = []\<rparr>
       (Fin 100) \<lparr>pos_x = Fin (- 2000), pos_y = Fin 0\<rparr>) = Fin (- 1000) \<and>
   arg_sh (cropArgs
       \<lparr>load_state = Loaded, naturalWidth = 1000, naturalHeight = 1000, image_data = []\<rparr>
       (Fin 100) \<lparr>pos_x = Fin (- 2000), pos_y = Fin 0\<rparr>) = Fin 400 \<and>
   (\<exists>out. handleSave (\<lambda>img a data i. data ! i) (Some ''img-1'')
       \<lparr>imageRef = Some \<lparr>load_state = Loaded, naturalWidth = 1000, naturalHeight = 1000,
                          image_data = []\<rparr>,
        canvasRef = Some \<lparr>canvas_width = 300, canvas_height = 150, context2d = True,
                           canvas_data = []\<rparr>\<rparr>
       (initialEditor\<lparr>position := \<lparr>pos_x = Fin (- 2000), pos_y = Fin 0\<rparr>\<rparr>) = Some out \<and>
     canvas_width out = 300 \<and> canvas_height out = 400 \<and>
     length (canvas_data out) = 4 * 300 * 400 \<and>
     canvas_data out = replicate (4 * 300 * 400) 255)"
  using C1_commit_is_300_by_400_and_white_when_off_image [of "Some ''img-1''" "''img-1''"
      "\<lparr>imageRef = Some \<lparr>load_state = Loaded, naturalWidth = 1000, naturalHeight = 1000,
                           image_data = []\<rparr>,
        canvasRef = Some \<lparr>canvas_width = 300, canvas_height = 150, context2d = True,
                           canvas_data = []\<rparr>\<rparr>"
      "\<lparr>load_state = Loaded, naturalWidth = 1000, naturalHeight = 1000, image_data = []\<rparr>"
      "\<lparr>canvas_width = 300, canvas_height = 150, context2d = True, canvas_data = []\<rparr>"
      "initialEditor\<lparr>position := \<lparr>pos_x = Fin (- 2000), pos_y = Fin 0\<rparr>\<rparr>"
      100 "- 2000" 0 "\<lambda>img a data i. data ! i"]
  by (simp add: initialEditor_def cropArgs_def visibleSource_def clampedSourceArea_def Let_def)

section \<open>The bounds of the zoom\<close>

lemma limitZoom_noop: "inBounds z \<Longrightarrow> limitZoom z = z"
  by (cases z) (auto simp: limitZoom_def)

lemma limitZoom_idem: "limitZoom (limitZoom z) = limitZoom z"
proof (cases "z = NaN")
  case True
  then show ?thesis by (simp add: limitZoom_def Math_min_def Math_max_def)
next
  case False
  then show ?thesis by (simp add: limitZoom_noop limitZoom_inBounds)
qed

lemma getOptimalZoom_inBounds: "inBounds (getOptimalZoom d)"
proof (cases "imageRef d")
  case None
  then show ?thesis by (simp add: getOptimalZoom_def)
next
  case (Some img)
  show ?thesis
  proof (cases "naturalWidth img = 0 \<or> naturalHeight img = 0")
    case True
    with Some show ?thesis
      by (cases "naturalWidth img = 0"; cases "naturalHeight img = 0")
        (simp_all add: getOptimalZoom_def Let_def Math_max_def Math_min_def jgt_def)
  next
    case False
    define m where "m = max (300 / real (naturalWidth img)) (400 / real (naturalHeight img))"
    have "getOptimalZoom d = (if 1 < m then Fin (min (m * 100) 200) else Fin 100)"
      using Some False unfolding m_def by (simp add: getOptimalZoom_def Let_def)
    then show ?thesis by (auto simp: min_def)
  qed
qed

lemma detect_try_inBounds:
  "inBounds (zoom (detectFaceAndCrop_try (Fin w) (Fin h)))"
  by (simp add: detectFaceAndCrop_try_def Let_def faceZoom_inBounds detectedFace_finite)

lemma detectFaceAndCrop_inBounds:
  "inBounds (zoom ed) \<Longrightarrow> inBounds (zoom (detectFaceAndCrop paint d ed))"
  by (auto simp add: detectFaceAndCrop_def Let_def detect_try_inBounds
      split: option.splits sum.splits)

lemma js_or_inBounds: "inBounds z \<Longrightarrow> js_or z (Fin 100) = z"
  by (cases z) (auto simp: js_or_def)

lemma cropsInBounds_find:
  "cropsInBounds imgs \<Longrightarrow> find P imgs = Some img \<Longrightarrow> crop img = Some c \<Longrightarrow> inBounds (zoom c)"
  by (induction imgs) (auto simp: cropsInBounds_def split: if_splits)

lemma selectionEffect_inBounds:
  assumes "inBounds (zoom ed)" "\<And>c. sel = Some (Some c) \<Longrightarrow> inBounds (zoom c)"
  shows "inBounds (zoom (selectionEffect sel d ed))"
  using assms
  by (auto simp add: selectionEffect_def js_or_inBounds getOptimalZoom_inBounds split: option.splits)

lemma handleImageEdit_crops:
  "cropsInBounds imgs \<Longrightarrow> inBounds (zoom c) \<Longrightarrow> cropsInBounds (handleImageEdit i url (Some c) imgs)"
  by (induction imgs) (auto simp: cropsInBounds_def handleImageEdit_def)

lemma handleAcceptImage_crops:
  "cropsInBounds imgs \<Longrightarrow> cropsInBounds (handleAcceptImage sel i a imgs)"
  by (induction imgs) (auto simp: cropsInBounds_def handleAcceptImage_def)

lemma processedImages_crops: "cropsInBounds (processedImages files)"
  by (induction files) (auto simp: cropsInBounds_def processedImages_def newImage_def)

lemma cropsInBounds_append:
  "cropsInBounds (xs @ ys) \<longleftrightarrow> cropsInBounds xs \<and> cropsInBounds ys"
  by (simp add: cropsInBounds_def)

lemma saveCrop_invariant: "zoomInvariant s \<Longrightarrow> zoomInvariant (saveCrop paint toBlob d s)"
  by (auto simp add: zoomInvariant_def saveCrop_def onImageSave_def savedCrop_def
      handleImageEdit_crops split: option.splits)

lemma handle_invariant:
  "zoomInvariant s \<Longrightarrow> fromSlider ev \<Longrightarrow> zoomInvariant (handle paint toBlob ev s)"
proof (cases ev)
  case (RunEffect d)
  assume inv: "zoomInvariant s"
  have "inBounds (zoom (selectionEffect (map_option crop (selectedImage s)) d (editorState s)))"
  proof (rule selectionEffect_inBounds)
    show "inBounds (zoom (editorState s))" using inv by (simp add: zoomInvariant_def)
  next
    fix c assume "map_option crop (selectedImage s) = Some (Some c)"
    then obtain img where "find (\<lambda>img. Some (img_id img) = selectedImageId s) (images s) = Some img"
      "crop img = Some c" by (auto simp: selectedImage_def)
    then show "inBounds (zoom c)"
      using inv cropsInBounds_find by (auto simp: zoomInvariant_def)
  qed
  with inv RunEffect show ?thesis by (simp add: zoomInvariant_def)
next
  case (ZoomChange val)
  assume "zoomInvariant s" "fromSlider ev"
  with ZoomChange show ?thesis
    by (auto simp add: zoomInvariant_def handleZoomChange_def split: list.splits)
qed (auto simp add: zoomInvariant_def cropsInBounds_append processedImages_crops
      detectFaceAndCrop_inBounds handleMouseDown_def handleMouseMove_def handleMouseUp_def
      resetPosition_def handleAcceptImage_crops saveCrop_invariant [unfolded zoomInvariant_def])

lemma run_invariant:
  "zoomInvariant s \<Longrightarrow> list_all fromSlider es \<Longrightarrow> zoomInvariant (run paint toBlob es s)"
  by (induction es arbitrary: s) (auto simp: handle_invariant)

lemma initialApp_invariant: "zoomInvariant initialApp"
  by (simp add: zoomInvariant_def cropsInBounds_def initialApp_def initialEditor_def)

text \<open>
  C5, as amended. Only the estimator clamps: \<open>max(10, min(200, z))\<close> maps every
  number \<open>z\<close> (NaN apart) into 10 .. 200, leaves a value in that range as it is,
  is idempotent, and the zoom the estimator returns is such a clamped value.
  \<open>handleZoomChange\<close> stores the value it is given, unchanged. With every
  \<open>handleZoomChange\<close> coming from the slider, whose bounds are 10 and 200, the
  zoom of the editor and of every saved crop is within 10 .. 200 after any sequence
  of events from the initial state.
\<close>

theorem C5_zoom_bounds:
  "(z \<noteq> NaN \<longrightarrow> inBounds (limitZoom z)) \<and>
   (inBounds z \<longrightarrow> limitZoom z = z) \<and>
   limitZoom (limitZoom z) = limitZoom z \<and>
   zoom (detectFaceAndCrop_try (Fin (real W)) (Fin (real H))) =
     limitZoom (zoom (detectFaceAndCrop_try (Fin (real W)) (Fin (real H)))) \<and>
   zoom (handleZoomChange (v # vs) ed) = v \<and>
   (list_all fromSlider es \<longrightarrow> zoomInvariant (run paint toBlob es initialApp))"
  using limitZoom_inBounds [of z] limitZoom_noop [of z] limitZoom_idem [of z]
    run_invariant [OF initialApp_invariant, of es paint toBlob]
    limitZoom_noop [OF detect_try_inBounds, of "real W" "real H"]
  by (simp add: handleZoomChange_def)

text \<open>
  The amended C5 on concrete values: 500 is clamped to 200, 3 to 10, 150 stays;
  an upload, a slider change to 150, a save, a reset and a run of the selection
  effect leave the zoom within the bounds.
\<close>

theorem C5_zoom_bounds_witness:
  "limitZoom (Fin 500) = Fin 200 \<and> limitZoom (Fin 3) = Fin 10 \<and>
   limitZoom (Fin 150) = Fin 150 \<and>
   zoom (handleZoomChange [Fin 150] initialEditor) = Fin 150 \<and>
   zoomInvariant (run (\<lambda>img a data i. data ! i) (\<lambda>cv. Some ''blob:crop'')
     [Upload [(''img-1'', ''a.png'', ''blob:a'')],
      ZoomChange [Fin 150],
      SaveCrop \<lparr>imageRef = Some \<lparr>load_state = Loaded, naturalWidth = 800,
                                  naturalHeight = 1200, image_data = []\<rparr>,
                canvasRef = Some \<lparr>canvas_width = 300, canvas_height = 150,
                                   context2d = True, canvas_data = []\<rparr>\<rparr>,
      ResetPosition,
      RunEffect \<lparr>imageRef = None, canvasRef = None\<rparr>] initialApp)"
  using C5_zoom_bounds [of "Fin 500" 800 1200 "Fin 150" "[]" initialEditor
     "[Upload [(''img-1'', ''a.png'', ''blob:a'')],
      ZoomChange [Fin 150],
      SaveCrop \<lparr>imageRef = Some \<lparr>load_state = Loaded, naturalWidth = 800,
                                  naturalHeight = 1200, image_data = []\<rparr>,
                canvasRef = Some \<lparr>canvas_width = 300, canvas_height = 150,
                                   context2d = True, canvas_data = []\<rparr>\<rparr>,
      ResetPosition,
      RunEffect \<lparr>imageRef = None, canvasRef = None\<rparr>]"
     "\<lambda>img a data i. data ! i" "\<lambda>cv. Some ''blob:crop''"]
  by (simp add: limitZoom_def handleZoomChange_def)

text \<open>
  C5 as stated fails: \<open>handleZoomChange\<close> given 500 stores 500, which is outside
  10 .. 200, and restoring a saved crop whose zoom is 500 stores 500 as well.
\<close>

theorem C5_unclamped_request_counterexample:
  "zoom (handleZoomChange [Fin 500] initialEditor) = Fin 500 \<and>
   \<not> inBounds (zoom (handleZoomChange [Fin 500] initialEditor)) \<and>
   zoom (selectionEffect
      (Some (Some \<lparr>zoom = Fin 500, position = \<lparr>pos_x = Fin 0, pos_y = Fin 0\<rparr>,
                    area = defaultArea, crop_croppedUrl = Some ''blob:crop'',
                    crop_isGreyscale = Some True\<rparr>))
      \<lparr>imageRef = None, canvasRef = None\<rparr> initialEditor) = Fin 500"
  by (simp add: handleZoomChange_def initialEditor_def selectionEffect_def js_or_def)

section \<open>Saving, accepting and exporting\<close>

lemma handleImageEdit_ids: "map img_id (handleImageEdit i url cd imgs) = map img_id imgs"
  by (induction imgs) (simp_all add: handleImageEdit_def)

lemma find_in_set: "find P xs = Some x \<Longrightarrow> x \<in> set xs \<and> P x"
  by (induction xs) (auto split: if_splits)

lemma handleImageEdit_cases:
  assumes "img \<in> set (handleImageEdit i url cd imgs)"
  obtains old where "old \<in> set imgs" "img_id old = i"
      "img = old\<lparr>croppedUrl := Some url, isEdited := True, crop := cd, isAccepted := True\<rparr>"
  | "img \<in> set imgs" "img_id img \<noteq> i"
proof -
  from assms [unfolded handleImageEdit_def set_map]
  obtain old where old: "old \<in> set imgs"
    and img: "img = (if img_id old = i
                     then old\<lparr>croppedUrl := Some url, isEdited := True, crop := cd,
                              isAccepted := True\<rparr>
                     else old)"
    by (rule imageE)
  show thesis
  proof (cases "img_id old = i")
    case True
    with old img that(1) show thesis by simp
  next
    case False
    with old img that(2) show thesis by simp
  qed
qed

lemma handleImageEdit_saved:
  assumes "img \<in> set (handleImageEdit i url cd imgs)" "img_id img = i"
  shows "isAccepted img \<and> isEdited img \<and> croppedUrl img = Some url \<and> crop img = cd"
  using assms(1)
proof (cases rule: handleImageEdit_cases)
  case (1 old)
  then show ?thesis by simp
next
  case 2
  with assms(2) show ?thesis by simp
qed

text \<open>
  C10. A save that succeeds (an image is selected, \<open>handleSave\<close> produces the
  canvas and the encoder a URL) keeps the list of records and, on every record with
  the id of the selected image, sets \<open>isAccepted\<close> and \<open>isEdited\<close>, attaches the
  crop and stores the URL of the result. \<open>handleImageEdit\<close> does so for any id,
  URL and crop.
\<close>

theorem C10_save_sets_accepted_and_edited:
  assumes "selectedImage s = Some sel"
    and "handleSave paint (selectedImageId s) d (editorState s) = Some cv"
    and "toBlob cv = Some url"
  shows "map img_id (images (saveCrop paint toBlob d s)) = map img_id (images s) \<and>
         img_id sel \<in> set (map img_id (images (saveCrop paint toBlob d s))) \<and>
         (\<forall>img \<in> set (images (saveCrop paint toBlob d s)). img_id img = img_id sel \<longrightarrow>
            isAccepted img \<and> isEdited img \<and>
            crop img = Some (savedCrop (editorState s) url) \<and>
            croppedUrl img = Some (if url \<noteq> [] then url else previewUrl sel)) \<and>
         (\<forall>img \<in> set (handleImageEdit imageId u cd imgs). img_id img = imageId \<longrightarrow>
            isAccepted img \<and> isEdited img \<and> croppedUrl img = Some u \<and> crop img = cd)"
proof (intro conjI)
  let ?u = "if url \<noteq> [] then url else previewUrl sel"
  have sc: "images (saveCrop paint toBlob d s) =
        handleImageEdit (img_id sel) ?u (Some (savedCrop (editorState s) url)) (images s)"
    unfolding saveCrop_def onImageSave_def assms option.case
    by (simp add: savedCrop_def)
  show "map img_id (images (saveCrop paint toBlob d s)) = map img_id (images s)"
    unfolding sc by (rule handleImageEdit_ids)
  have "sel \<in> set (images s)"
    using find_in_set [OF assms(1) [unfolded selectedImage_def]] by simp
  then show "img_id sel \<in> set (map img_id (images (saveCrop paint toBlob d s)))"
    unfolding sc handleImageEdit_ids by simp
  show "\<forall>img \<in> set (images (saveCrop paint toBlob d s)). img_id img = img_id sel \<longrightarrow>
            isAccepted img \<and> isEdited img \<and>
            crop img = Some (savedCrop (editorState s) url) \<and>
            croppedUrl img = Some (if url \<noteq> [] then url else previewUrl sel)"
    unfolding sc
    using handleImageEdit_saved
      [of _ "img_id sel" ?u "Some (savedCrop (editorState s) url)" "images s"]
    by blast
  show "\<forall>img \<in> set (handleImageEdit imageId u cd imgs). img_id img = imageId \<longrightarrow>
            isAccepted img \<and> isEdited img \<and> croppedUrl img = Some u \<and> crop img = cd"
    using handleImageEdit_saved [of _ imageId u cd imgs] by blast
qed

text \<open>
  C10 on one uploaded image saved with the initial viewport: the record ends
  accepted and edited, with the crop and the URL of the encoded result.
\<close>

theorem C10_save_sets_accepted_and_edited_witness:
  "images (saveCrop (\<lambda>img a data i. data ! i) (\<lambda>cv. Some ''blob:crop'')
      \<lparr>imageRef = Some \<lparr>load_state = Loaded, naturalWidth = 800, naturalHeight = 1200,
                         image_data = []\<rparr>,
       canvasRef = Some \<lparr>canvas_width = 300, canvas_height = 150, context2d = True,
                          canvas_data = []\<rparr>\<rparr>
      (handle (\<lambda>img a data i. data ! i) (\<lambda>cv. Some ''blob:crop'')
         (Upload [(''img-1'', ''a.png'', ''blob:a'')]) initialApp)) =
   [\<lparr>img_id = ''img-1'', originalName = ''a.png'', previewUrl = ''blob:a'',
     croppedUrl = Some ''blob:crop'', isProcessed = True, isEdited = True, isAccepted = True,
     crop = Some \<lparr>zoom = Fin 100, position = \<lparr>pos_x = Fin 0, pos_y = Fin 0\<rparr>,
                  area = defaultArea, crop_croppedUrl = Some ''blob:crop'',
                  crop_isGreyscale = Some True\<rparr>\<rparr>]"
  using C10_save_sets_accepted_and_edited
    [of "handle (\<lambda>img a data i. data ! i) (\<lambda>cv. Some ''blob:crop'')
           (Upload [(''img-1'', ''a.png'', ''blob:a'')]) initialApp"
       "\<lparr>img_id = ''img-1'', originalName = ''a.png'', previewUrl = ''blob:a'',
         croppedUrl = Some ''blob:a'', isProcessed = True, isEdited = False,
         isAccepted = False, crop = None\<rparr>"
       "\<lambda>img a data i. data ! i"
       "\<lparr>imageRef = Some \<lparr>load_state = Loaded, naturalWidth = 800, naturalHeight = 1200,
                           image_data = []\<rparr>,
         canvasRef = Some \<lparr>canvas_width = 300, canvas_height = 150, context2d = True,
                            canvas_data = []\<rparr>\<rparr>"
       "projr (renderCrop (\<lambda>img a data i. data ! i)
          \<lparr>load_state = Loaded, naturalWidth = 800, naturalHeight = 1200, image_data = []\<rparr>
          \<lparr>canvas_width = 300, canvas_height = 150, context2d = True, canvas_data = []\<rparr>
          (Fin 100) \<lparr>pos_x = Fin 0, pos_y = Fin 0\<rparr> True)"
       "\<lambda>cv. Some ''blob:crop''" "''blob:crop''" "''img-1''" "''u''" None "[]"]
  by (simp add: initialApp_def initialEditor_def processedImages_def newImage_def
      selectedImage_def handleSave_Some saveCrop_def onImageSave_def savedCrop_def
      handleImageEdit_def)












lemma exportable_iff:
  "exportable img \<longleftrightarrow>
     isProcessed img \<and> (isEdited img \<or> isAccepted img) \<and>
     (truthy (croppedUrl img) \<or> isAccepted img \<and> previewUrl img \<noteq> [])"
  by (auto simp add: exportable_def downloadProps_def truthy_def)

lemma exportedUrl_eq:
  "exportedUrl img =
     (if exportable img
      then (if truthy (croppedUrl img) then croppedUrl img else Some (previewUrl img))
      else None)"
  by (auto simp add: exportedUrl_def exportable_def downloadProps_def selectedImgs_def
      initialSelection_def truthy_def)

lemma zip_ids:
  "map dl_id (selectedImgs (downloadProps imgs) (initialSelection (downloadProps imgs))) =
   map img_id (filter exportable imgs)"
proof -
  have sel: "dl_isProcessed it \<Longrightarrow> it \<in> set items \<Longrightarrow> dl_id it \<in> set (initialSelection items)"
    for it items by (auto simp: initialSelection_def)
  have "selectedImgs (downloadProps imgs) (initialSelection (downloadProps imgs)) =
        filter (\<lambda>it. dl_isProcessed it \<and> truthy (dl_croppedUrl it)) (downloadProps imgs)"
    unfolding selectedImgs_def by (rule filter_cong) (auto simp: sel)
  also have "map dl_id \<dots> = map img_id (filter exportable imgs)"
    by (induction imgs) (auto simp: downloadProps_def exportable_def)
  finally show ?thesis .
qed

text \<open>
  C9, as amended. A record contributes content to the export exactly when it is
  processed, is edited or accepted, and either has a non-empty \<open>croppedUrl\<close> or is
  accepted with a non-empty preview URL. The URL exported is the \<open>croppedUrl\<close> when
  that is non-empty and the preview URL otherwise. With the initial selection, the
  archive holds exactly these records, in order. Neither acceptance nor a saved crop
  is required.
\<close>

theorem C9_export_eligibility:
  "(exportable img \<longleftrightarrow>
      isProcessed img \<and> (isEdited img \<or> isAccepted img) \<and>
      (truthy (croppedUrl img) \<or> isAccepted img \<and> previewUrl img \<noteq> [])) \<and>
   exportedUrl img =
     (if exportable img
      then (if truthy (croppedUrl img) then croppedUrl img else Some (previewUrl img))
      else None) \<and>
   map dl_id (selectedImgs (downloadProps imgs) (initialSelection (downloadProps imgs))) =
     map img_id (filter exportable imgs)"
  using exportable_iff [of img] exportedUrl_eq [of img] zip_ids [of imgs] by blast

text \<open>
  The amended C9 on a record that was saved and then un-accepted, beside one that
  was never touched: the first is exported with the URL of its crop, the second is
  not exported.
\<close>

theorem C9_export_eligibility_witness:
  "exportable
     \<lparr>img_id = ''img-1'', originalName = ''a.png'', previewUrl = ''blob:a'',
      croppedUrl = Some ''blob:crop'', isProcessed = True, isEdited = True, isAccepted = False,
      crop = Some \<lparr>zoom = Fin 100, position = \<lparr>pos_x = Fin 0, pos_y = Fin 0\<rparr>,
                   area = defaultArea, crop_croppedUrl = Some ''blob:crop'',
                   crop_isGreyscale = Some True\<rparr>\<rparr> \<and>
   map dl_id (selectedImgs
     (downloadProps
        [\<lparr>img_id = ''img-1'', originalName = ''a.png'', previewUrl = ''blob:a'',
          croppedUrl = Some ''blob:crop'', isProcessed = True, isEdited = True,
          isAccepted = False,
          crop = Some \<lparr>zoom = Fin 100, position = \<lparr>pos_x = Fin 0, pos_y = Fin 0\<rparr>,
                       area = defaultArea, crop_croppedUrl = Some ''blob:crop'',
                       crop_isGreyscale = Some True\<rparr>\<rparr>,
         \<lparr>img_id = ''img-2'', originalName = ''b.png'', previewUrl = ''blob:b'',
          croppedUrl = Some ''blob:b'', isProcessed = True, isEdited = False,
          isAccepted = False, crop = None\<rparr>])
     (initialSelection (downloadProps
        [\<lparr>img_id = ''img-1'', originalName = ''a.png'', previewUrl = ''blob:a'',
          croppedUrl = Some ''blob:crop'', isProcessed = True, isEdited = True,
          isAccepted = False,
          crop = Some \<lparr>zoom = Fin 100, position = \<lparr>pos_x = Fin 0, pos_y = Fin 0\<rparr>,
                       area = defaultArea, crop_croppedUrl = Some ''blob:crop'',
                       crop_isGreyscale = Some True\<rparr>\<rparr>,
         \<lparr>img_id = ''img-2'', originalName = ''b.png'', previewUrl = ''blob:b'',
          croppedUrl = Some ''blob:b'', isProcessed = True, isEdited = False,
          isAccepted = False, crop = None\<rparr>]))) = [''img-1'']"
  using C9_export_eligibility
    [of "\<lparr>img_id = ''img-1'', originalName = ''a.png'', previewUrl = ''blob:a'',
          croppedUrl = Some ''blob:crop'', isProcessed = True, isEdited = True,
          isAccepted = False,
          crop = Some \<lparr>zoom = Fin 100, position = \<lparr>pos_x = Fin 0, pos_y = Fin 0\<rparr>,
                       area = defaultArea, crop_croppedUrl = Some ''blob:crop'',
                       crop_isGreyscale = Some True\<rparr>\<rparr>"
        "[\<lparr>img_id = ''img-1'', originalName = ''a.png'', previewUrl = ''blob:a'',
          croppedUrl = Some ''blob:crop'', isProcessed = True, isEdited = True,
          isAccepted = False,
          crop = Some \<lparr>zoom = Fin 100, position = \<lparr>pos_x = Fin 0, pos_y = Fin 0\<rparr>,
                       area = defaultArea, crop_croppedUrl = Some ''blob:crop'',
                       crop_isGreyscale = Some True\<rparr>\<rparr>,
         \<lparr>img_id = ''img-2'', originalName = ''b.png'', previewUrl = ''blob:b'',
          croppedUrl = Some ''blob:b'', isProcessed = True, isEdited = False,
          isAccepted = False, crop = None\<rparr>]"]
  by (simp add: truthy_def exportable_def downloadProps_def selectedImgs_def
      initialSelection_def)

text \<open>
  C9 as stated fails in both directions. After an upload and an accept, without any
  save, the record is accepted, has no crop, and is exported with its preview URL,
  the uploaded original. After an upload, a save and an un-accept, the record is not
  accepted and is still exported.
\<close>

theorem C9_export_without_crop_counterexample:
  "images (run (\<lambda>img a data i. data ! i) (\<lambda>cv. Some ''blob:crop'')
      [Upload [(''img-1'', ''a.png'', ''blob:a'')], AcceptImage ''img-1'' True] initialApp) =
     [\<lparr>img_id = ''img-1'', originalName = ''a.png'', previewUrl = ''blob:a'',
       croppedUrl = Some ''blob:a'', isProcessed = True, isEdited = True, isAccepted = True,
       crop = None\<rparr>] \<and>
   exportable
     \<lparr>img_id = ''img-1'', originalName = ''a.png'', previewUrl = ''blob:a'',
      croppedUrl = Some ''blob:a'', isProcessed = True, isEdited = True, isAccepted = True,
      crop = None\<rparr> \<and>
   exportedUrl
     \<lparr>img_id = ''img-1'', originalName = ''a.png'', previewUrl = ''blob:a'',
      croppedUrl = Some ''blob:a'', isProcessed = True, isEdited = True, isAccepted = True,
      crop = None\<rparr> = Some ''blob:a'' \<and>
   list_all (\<lambda>img. exportable img \<and> \<not> isAccepted img)
     (images (run (\<lambda>img a data i. data ! i) (\<lambda>cv. Some ''blob:crop'')
        [Upload [(''img-1'', ''a.png'', ''blob:a'')],
         SaveCrop \<lparr>imageRef = Some \<lparr>load_state = Loaded, naturalWidth = 800,
                                     naturalHeight = 1200, image_data = []\<rparr>,
                   canvasRef = Some \<lparr>canvas_width = 300, canvas_height = 150,
                                      context2d = True, canvas_data = []\<rparr>\<rparr>,
         AcceptImage ''img-1'' False] initialApp)) \<and>
   length (images (run (\<lambda>img a data i. data ! i) (\<lambda>cv. Some ''blob:crop'')
        [Upload [(''img-1'', ''a.png'', ''blob:a'')],
         SaveCrop \<lparr>imageRef = Some \<lparr>load_state = Loaded, naturalWidth = 800,
                                     naturalHeight = 1200, image_data = []\<rparr>,
                   canvasRef = Some \<lparr>canvas_width = 300, canvas_height = 150,
                                      context2d = True, canvas_data = []\<rparr>\<rparr>,
         AcceptImage ''img-1'' False] initialApp)) = 1"
  by (simp add: initialApp_def initialEditor_def processedImages_def newImage_def
      handleAcceptImage_def truthy_def exportable_def exportedUrl_def downloadProps_def
      selectedImgs_def initialSelection_def selectedImage_def handleSave_Some saveCrop_def
      onImageSave_def savedCrop_def handleImageEdit_def)

end
